theory Spec2Isabelle
  imports Complex_Main "HOL-Library.Char_ord" "HOL-Library.List_Lexorder"
begin

section \<open>Hybrid retrieval core (src/rag/hybridSearch.js)\<close>

text \<open>
  JavaScript numbers that carry scores and weights are modelled as exact reals: IEEE
  rounding, infinities and NaN are not part of the model. Counts, steps and the top-k
  parameter are integers. Strings are byte lists; every pattern of the source that is
  modelled here only inspects ASCII characters.
\<close>

subsection \<open>Data\<close>

type_synonym doc_id = string

record metadata =
  filePath :: "string option"
  fileName :: "string option"
  content :: "string option"

text \<open>A per-modality hit \<open>{id, score, metadata}\<close>; \<open>metadata\<close> may be missing.\<close>

record search_result =
  id_r :: doc_id
  score_r :: real
  metadata_r :: "metadata option"

text \<open>An entry of the \<open>combinedScores\<close> map of \<open>mergeResults\<close>.\<close>

record fused =
  id_f :: doc_id
  metadata_f :: "metadata option"
  bm25Score :: real
  vectorScore :: real
  combinedScore :: real


text \<open>
  The two indices. Only the fields \<open>hybridSearch\<close> reads are named; the rest of an index
  is the record's extension. \<open>size\<close> and \<open>documentCount\<close> may be undefined (\<open>None\<close>).
  A thrown exception is \<open>Inl\<close> of its message.
\<close>

record vector_index =
  size_v :: "nat option"

record bm25_index =
  documentCount :: "nat option"
  search :: "string \<Rightarrow> int \<Rightarrow> string + search_result list"

record options =
  bm25Weight :: "real option"
  vectorWeight :: "real option"
  k :: "int option"
  expandedK :: "int option"

definition DEFAULT_BM25_WEIGHT :: real where "DEFAULT_BM25_WEIGHT = 3 / 10"
definition DEFAULT_VECTOR_WEIGHT :: real where "DEFAULT_VECTOR_WEIGHT = 7 / 10"
definition DEFAULT_TOP_K :: int where "DEFAULT_TOP_K = 5"

subsection \<open>mergeResults\<close>

text \<open>
  A JavaScript \<open>Map\<close> iterates in insertion order, and setting an existing key keeps the
  key's position: the map is the list of its entries, at most one per id.
\<close>

definition map_has :: "doc_id \<Rightarrow> fused list \<Rightarrow> bool" where
  "map_has i m = (i \<in> id_f ` set m)"

definition map_set_fresh :: "doc_id \<Rightarrow> metadata option \<Rightarrow> fused list \<Rightarrow> fused list" where
  "map_set_fresh i md m =
     (if map_has i m then m
      else m @ [\<lparr>id_f = i, metadata_f = md, bm25Score = 0, vectorScore = 0, combinedScore = 0\<rparr>])"

definition map_modify :: "doc_id \<Rightarrow> (fused \<Rightarrow> fused) \<Rightarrow> fused list \<Rightarrow> fused list" where
  "map_modify i f m = map (\<lambda>e. if id_f e = i then f e else e) m"

definition process_bm25 :: "fused list \<Rightarrow> search_result \<Rightarrow> fused list" where
  "process_bm25 m r =
     map_modify (id_r r) (\<lambda>e. e\<lparr>bm25Score := score_r r, metadata_f := metadata_r r\<rparr>)
       (map_set_fresh (id_r r) (metadata_r r) m)"

definition process_vector :: "fused list \<Rightarrow> search_result \<Rightarrow> fused list" where
  "process_vector m r =
     map_modify (id_r r)
       (\<lambda>e. e\<lparr>vectorScore := score_r r,
              metadata_f := (case metadata_r r of Some md \<Rightarrow> Some md | None \<Rightarrow> metadata_f e)\<rparr>)
       (map_set_fresh (id_r r) (metadata_r r) m)"

definition combine :: "real \<Rightarrow> real \<Rightarrow> fused \<Rightarrow> fused" where
  "combine bw vw e = e\<lparr>combinedScore := bm25Score e * bw + vectorScore e * vw\<rparr>"

text \<open>
  The entries in map order, before the final sort: BM25 hits are processed first, then
  the vector hits.
\<close>

definition combinedScores :: "search_result list \<Rightarrow> search_result list \<Rightarrow> real \<Rightarrow> real \<Rightarrow> fused list" where
  "combinedScores bm25Results vectorResults bw vw =
     map (combine bw vw) (foldl process_vector (foldl process_bm25 [] bm25Results) vectorResults)"

text \<open>
  \<open>Array.prototype.sort\<close> is stable, and the comparator \<open>b.combinedScore - a.combinedScore\<close>
  orders by descending combined score: insertion sort on the negated score.
\<close>

definition mergeResults :: "search_result list \<Rightarrow> search_result list \<Rightarrow> real \<Rightarrow> real \<Rightarrow> fused list" where
  "mergeResults bm25Results vectorResults bw vw =
     sort_key (\<lambda>e. - combinedScore e) (combinedScores bm25Results vectorResults bw vw)"

subsection \<open>hybridSearch\<close>

text \<open>\<open>xs.slice(0, n)\<close>: a negative \<open>n\<close> counts from the end of the array.\<close>

definition slice0 :: "int \<Rightarrow> 'a list \<Rightarrow> 'a list" where
  "slice0 n xs = (if n < 0 then take (nat (int (length xs) + n)) xs else take (nat n) xs)"

definition or_zero :: "nat option \<Rightarrow> int" where
  "or_zero c = (case c of None \<Rightarrow> 0 | Some n \<Rightarrow> int n)"

text \<open>
  \<open>generateEmbedding\<close> and \<open>searchIndex\<close> are imported from modules outside the
  repository's core and are parameters. The \<open>try\<close> block rethrows any exception with the
  prefix below.
\<close>

definition hybridSearch ::
  "(string \<Rightarrow> string + 'e) \<Rightarrow> ('v vector_index_scheme \<Rightarrow> 'e \<Rightarrow> int \<Rightarrow> string + search_result list) \<Rightarrow>
   string \<Rightarrow> 'v vector_index_scheme \<Rightarrow> 'b bm25_index_scheme \<Rightarrow> options \<Rightarrow> string + fused list" where
  "hybridSearch generateEmbedding searchIndex query vectorIndex bm25Index opts =
     (let bw = (case bm25Weight opts of None \<Rightarrow> DEFAULT_BM25_WEIGHT | Some w \<Rightarrow> w);
          vw = (case vectorWeight opts of None \<Rightarrow> DEFAULT_VECTOR_WEIGHT | Some w \<Rightarrow> w);
          kk = (case k opts of None \<Rightarrow> DEFAULT_TOP_K | Some n \<Rightarrow> n);
          ek = (case expandedK opts of None \<Rightarrow> kk * 3 | Some n \<Rightarrow> n);
          vectorCount = or_zero (size_v vectorIndex);
          bm25Count = or_zero (documentCount bm25Index);
          maxAvailable = max vectorCount bm25Count;
          safeExpandedK = min ek maxAvailable;
          safeK = min kk maxAvailable;
          totalWeight = bw + vw;
          normalizedBM25Weight = bw / totalWeight;
          normalizedVectorWeight = vw / totalWeight
      in case search bm25Index query safeExpandedK of
           Inl msg \<Rightarrow> Inl (''Failed to perform hybrid search: '' @ msg)
         | Inr bm25Results \<Rightarrow>
             (case generateEmbedding query of
                Inl msg \<Rightarrow> Inl (''Failed to perform hybrid search: '' @ msg)
              | Inr queryEmbedding \<Rightarrow>
                  (case searchIndex vectorIndex queryEmbedding safeExpandedK of
                     Inl msg \<Rightarrow> Inl (''Failed to perform hybrid search: '' @ msg)
                   | Inr vectorResults \<Rightarrow>
                       Inr (slice0 safeK
                              (mergeResults bm25Results vectorResults
                                 normalizedBM25Weight normalizedVectorWeight)))))"


subsection \<open>identifyRootCauseFile\<close>


definition is_digit :: "char \<Rightarrow> bool" where
  "is_digit c = (CHR ''0'' \<le> c \<and> c \<le> CHR ''9'')"

definition is_upper :: "char \<Rightarrow> bool" where
  "is_upper c = (CHR ''A'' \<le> c \<and> c \<le> CHR ''Z'')"




definition lower_char :: "char \<Rightarrow> char" where
  "lower_char c = (if is_upper c then char_of (of_char c + (32::nat)) else c)"

definition toLowerCase :: "string \<Rightarrow> string" where
  "toLowerCase s = map lower_char s"






















subsection \<open>Auxiliary notions and sample data for the retrieval core\<close>

text \<open>
  The order in which ids enter the \<open>combinedScores\<close> map is the order of their first
  occurrence; \<open>add_new\<close> is one step of it.
\<close>

definition add_new :: "'a list \<Rightarrow> 'a \<Rightarrow> 'a list" where
  "add_new acc x = (if x \<in> set acc then acc else acc @ [x])"

definition first_occurrences :: "'a list \<Rightarrow> 'a list" where
  "first_occurrences xs = rev (remdups (rev xs))"

definition ex_doc :: "doc_id \<Rightarrow> real \<Rightarrow> search_result" where
  "ex_doc i s = \<lparr>id_r = i, score_r = s, metadata_r = None\<rparr>"

text \<open>
  A vector index of two chunks and a BM25 index of one chunk; each search returns its best
  hits, at most as many as asked for.
\<close>

definition ex_vector_index :: vector_index where
  "ex_vector_index = \<lparr>size_v = Some 2\<rparr>"

definition ex_searchIndex :: "vector_index \<Rightarrow> unit \<Rightarrow> int \<Rightarrow> string + search_result list" where
  "ex_searchIndex vi e n = Inr (take (nat n) [ex_doc ''a.js#1'' (9 / 10), ex_doc ''b.js#1'' (8 / 10)])"

definition ex_bm25_index :: bm25_index where
  "ex_bm25_index =
     \<lparr>documentCount = Some 1, search = (\<lambda>q n. Inr (take (nat n) [ex_doc ''a.js#1'' 1]))\<rparr>"

definition ex_generateEmbedding :: "string \<Rightarrow> string + unit" where
  "ex_generateEmbedding q = Inr ()"

definition ex_options :: options where
  "ex_options = \<lparr>bm25Weight = None, vectorWeight = None, k = Some 2, expandedK = None\<rparr>"

text \<open>Two rankings in which documents \<open>A\<close> and \<open>B\<close> tie under the weights 1/2 and 1/2.\<close>

definition tie_bm25 :: "search_result list" where
  "tie_bm25 = [ex_doc ''A'' 2]"

definition tie_vector :: "search_result list" where
  "tie_vector = [ex_doc ''B'' 2, ex_doc ''A'' 0]"


section \<open>Agent context and error evolution (core/agent_prompt.js)\<close>

subsection \<open>JavaScript values\<close>

text \<open>
  Tool parameters and tool results are JSON data. An object is the list of its properties;
  a property that is absent reads as \<open>undefined\<close> (\<open>None\<close>). Numbers in parameters, steps
  and line numbers are integers. A function that may throw returns an \<open>outcome\<close>.
\<close>

datatype json = JNull | JBool bool | JNum int | JStr string | JArr "json list"
  | JObj "(string \<times> json) list"

type_synonym obj = "(string \<times> json) list"

datatype 'a outcome = Returns 'a | Throws string

definition get_prop :: "obj \<Rightarrow> string \<Rightarrow> json option" where
  "get_prop ob key = map_of ob key"

text \<open>Truthiness; \<open>undefined\<close> and \<open>null\<close>, \<open>false\<close>, \<open>0\<close> and the empty string are falsy.\<close>

fun truthy :: "json \<Rightarrow> bool" where
  "truthy JNull = False"
| "truthy (JBool b) = b"
| "truthy (JNum n) = (n \<noteq> 0)"
| "truthy (JStr s) = (s \<noteq> [])"
| "truthy (JArr xs) = True"
| "truthy (JObj kvs) = True"

definition truthy_opt :: "json option \<Rightarrow> bool" where
  "truthy_opt v = (case v of None \<Rightarrow> False | Some j \<Rightarrow> truthy j)"

subsection \<open>Strings\<close>

definition starts_with :: "string \<Rightarrow> string \<Rightarrow> bool" where
  "starts_with pre s = (take (length pre) s = pre)"

text \<open>\<open>s.includes(t)\<close>.\<close>

fun str_includes :: "string \<Rightarrow> string \<Rightarrow> bool" where
  "str_includes [] t = (t = [])"
| "str_includes (c # cs) t = (starts_with t (c # cs) \<or> str_includes cs t)"

text \<open>\<open>s.replace(pat, rep)\<close> for a string pattern: the first occurrence only.\<close>

fun replace_first :: "string \<Rightarrow> string \<Rightarrow> string \<Rightarrow> string" where
  "replace_first pat rep [] = (if pat = [] then rep else [])"
| "replace_first pat rep (c # cs) =
     (if starts_with pat (c # cs) then rep @ drop (length pat) (c # cs)
      else c # replace_first pat rep cs)"

fun intercalate :: "string \<Rightarrow> string list \<Rightarrow> string" where
  "intercalate sep [] = []"
| "intercalate sep [x] = x"
| "intercalate sep (x # y # ys) = x @ sep @ intercalate sep (y # ys)"

text \<open>Decimal notation of a number, as template literals and \<open>JSON.stringify\<close> print it.\<close>

definition digit_char :: "nat \<Rightarrow> char" where
  "digit_char d = ''0123456789'' ! d"

function show_nat :: "nat \<Rightarrow> string" where
  "show_nat n = (if n < 10 then [digit_char n] else show_nat (n div 10) @ [digit_char (n mod 10)])"
  by pat_completeness auto
termination
  by (relation "measure id") auto

declare show_nat.simps [simp del]

definition show_int :: "int \<Rightarrow> string" where
  "show_int i = (if i < 0 then CHR ''-'' # show_nat (nat (- i)) else show_nat (nat i))"

text \<open>
  The line terminators that \<open>.\<close> does not match, and the white space that \<open>trim\<close> removes,
  among the characters below 256.
\<close>

definition is_line_terminator :: "char \<Rightarrow> bool" where
  "is_line_terminator c = (c = CHR 0x0A \<or> c = CHR 0x0D)"

definition is_space :: "char \<Rightarrow> bool" where
  "is_space c = (c \<in> {CHR 0x09, CHR 0x0A, CHR 0x0B, CHR 0x0C, CHR 0x0D, CHR 0x20, CHR 0xA0})"

definition trim :: "string \<Rightarrow> string" where
  "trim s = rev (dropWhile is_space (rev (dropWhile is_space s)))"

subsection \<open>JSON.stringify with an array replacer\<close>

definition hex_digit :: "nat \<Rightarrow> char" where
  "hex_digit d = ''0123456789abcdef'' ! d"

definition quote_char :: "char \<Rightarrow> string" where
  "quote_char c =
     (if c = CHR 0x22 then [CHR 0x5C, CHR 0x22]
      else if c = CHR 0x5C then [CHR 0x5C, CHR 0x5C]
      else if c = CHR 0x08 then [CHR 0x5C, CHR ''b'']
      else if c = CHR 0x0C then [CHR 0x5C, CHR ''f'']
      else if c = CHR 0x0A then [CHR 0x5C, CHR ''n'']
      else if c = CHR 0x0D then [CHR 0x5C, CHR ''r'']
      else if c = CHR 0x09 then [CHR 0x5C, CHR ''t'']
      else if (of_char c :: nat) < 32 then
        [CHR 0x5C, CHR ''u'', CHR ''0'', CHR ''0'', hex_digit (of_char c div 16), hex_digit (of_char c mod 16)]
      else [c])"

definition quote :: "string \<Rightarrow> string" where
  "quote s = [CHR 0x22] @ concat (map quote_char s) @ [CHR 0x22]"

text \<open>
  With an array as replacer, every object, nested ones too, is printed with exactly the
  listed keys it has, in the order of the list.
\<close>

fun stringify :: "string list \<Rightarrow> json \<Rightarrow> string" where
  "stringify ks JNull = ''null''"
| "stringify ks (JBool b) = (if b then ''true'' else ''false'')"
| "stringify ks (JNum n) = show_int n"
| "stringify ks (JStr s) = quote s"
| "stringify ks (JArr xs) = ''['' @ intercalate '','' (map (stringify ks) xs) @ '']''"
| "stringify ks (JObj kvs) =
     ''{'' @ intercalate '',''
        (concat (map (\<lambda>key. case map_of (map (\<lambda>kv. (fst kv, stringify ks (snd kv))) kvs) key of
                              None \<Rightarrow> [] | Some s \<Rightarrow> [quote key @ '':'' @ s])
                     (remdups ks)))
      @ ''}''"

subsection \<open>Error records\<close>

text \<open>
  An error object. \<open>parseErrorFromOutput\<close> fills the first six fields; the others are
  added by \<open>updateErrorState\<close> with object spread, and are \<open>None\<close> while absent.
\<close>

record error_info =
  type_e :: string
  message_e :: string
  raw_output :: string
  file_refs :: "string list"
  line_refs :: "int list"
  timestamp_e :: string
  first_seen_step :: "int option"
  last_seen_step :: "int option"
  status_e :: "string option"
  resolution_step :: "int option"
  resolved_at :: "string option"

record progression =
  step_p :: int
  error_detected :: "error_info option"
  previous_error :: "error_info option"
  timestamp_p :: string

record comparison =
  is_new_error :: bool
  is_same_error :: bool
  is_progression :: bool
  resolution_status :: string

subsection \<open>parseErrorFromOutput\<close>

text \<open>The table \<open>errorPatterns\<close>: each pattern is \<open>/T: (.+)/\<close> for the type \<open>T\<close>.\<close>

definition errorPatterns :: "string list" where
  "errorPatterns =
     [''ModuleNotFoundError'', ''KeyError'', ''FileNotFoundError'', ''SyntaxError'', ''ImportError'',
      ''AttributeError'', ''ValueError'', ''TypeError'', ''Error'', ''Exception'']"

text \<open>
  \<open>output.match(/T: (.+)/)\<close>: the leftmost place where the text \<open>T: \<close> is followed by a
  character that is no line terminator; the group is the rest of that line.
\<close>

fun match_pattern :: "string \<Rightarrow> string \<Rightarrow> string option" where
  "match_pattern pre [] = None"
| "match_pattern pre (c # cs) =
     (if starts_with pre (c # cs) \<and>
         (case drop (length pre) (c # cs) of [] \<Rightarrow> False | d # _ \<Rightarrow> \<not> is_line_terminator d)
      then Some (takeWhile (\<lambda>d. \<not> is_line_terminator d) (drop (length pre) (c # cs)))
      else match_pattern pre cs)"

text \<open>\<open>/File "([^"]+)"/g\<close>, every match from left to right.\<close>

function extract_file_matches :: "string \<Rightarrow> string list" where
  "extract_file_matches [] = []"
| "extract_file_matches (c # cs) =
     (if starts_with (''File '' @ [CHR 0x22]) (c # cs) then
        (let rest = drop 6 (c # cs);
             name = takeWhile (\<lambda>d. d \<noteq> CHR 0x22) rest;
             after = dropWhile (\<lambda>d. d \<noteq> CHR 0x22) rest
         in if name \<noteq> [] \<and> after \<noteq> [] then name # extract_file_matches (tl after)
            else extract_file_matches cs)
      else extract_file_matches cs)"
  by pat_completeness auto
termination
proof (relation "measure length", goal_cases)
  case 1
  show ?case by simp
next
  case (2 c cs rest name after)
  have "length (tl after) \<le> length after" by simp
  also have "\<dots> \<le> length rest" unfolding 2 by (rule length_dropWhile_le)
  also have "\<dots> < length (c # cs)" unfolding 2 by simp
  finally show ?case by simp
next
  case (3 c cs rest name after)
  show ?case by simp
next
  case (4 c cs)
  show ?case by simp
qed

definition extractFileReferences :: "string \<Rightarrow> string list" where
  "extractFileReferences output = first_occurrences (extract_file_matches output)"

text \<open>\<open>/line (\d+)/g\<close> with \<open>parseInt\<close> of the digits.\<close>

definition digit_val :: "char \<Rightarrow> int" where
  "digit_val c = int (of_char c) - 48"

definition parseInt_digits :: "string \<Rightarrow> int" where
  "parseInt_digits ds = foldl (\<lambda>acc c. 10 * acc + digit_val c) 0 ds"

function extract_line_matches :: "string \<Rightarrow> int list" where
  "extract_line_matches [] = []"
| "extract_line_matches (c # cs) =
     (if starts_with ''line '' (c # cs) then
        (let rest = drop 5 (c # cs);
             ds = takeWhile is_digit rest
         in if ds \<noteq> [] then parseInt_digits ds # extract_line_matches (dropWhile is_digit rest)
            else extract_line_matches cs)
      else extract_line_matches cs)"
  by pat_completeness auto
termination
proof (relation "measure length", goal_cases)
  case 1
  show ?case by simp
next
  case (2 c cs rest ds)
  have "length (dropWhile is_digit rest) \<le> length rest" by (rule length_dropWhile_le)
  also have "\<dots> < length (c # cs)" unfolding 2 by simp
  finally show ?case by simp
next
  case (3 c cs rest ds)
  show ?case by simp
next
  case (4 c cs)
  show ?case by simp
qed

definition extractLineNumbers :: "string \<Rightarrow> int list" where
  "extractLineNumbers output = first_occurrences (extract_line_matches output)"

text \<open>
  The first pattern of the table that matches wins. The argument is any value: one that is
  falsy or no string gives \<open>null\<close>. The time stamp \<open>new Date().toISOString()\<close> is the
  parameter \<open>now\<close>.
\<close>

fun first_pattern :: "string list \<Rightarrow> string \<Rightarrow> (string \<times> string) option" where
  "first_pattern [] output = None"
| "first_pattern (t # ts) output =
     (case match_pattern (t @ '': '') output of
        Some g \<Rightarrow> Some (t, g)
      | None \<Rightarrow> first_pattern ts output)"

definition parsed_error :: "string \<Rightarrow> string \<Rightarrow> string \<Rightarrow> string list \<Rightarrow> int list \<Rightarrow> string \<Rightarrow> error_info" where
  "parsed_error t m raw frefs lrefs now =
     \<lparr>type_e = t, message_e = m, raw_output = raw, file_refs = frefs, line_refs = lrefs,
      timestamp_e = now, first_seen_step = None, last_seen_step = None, status_e = None,
      resolution_step = None, resolved_at = None\<rparr>"

definition parseErrorFromOutput :: "string \<Rightarrow> json option \<Rightarrow> error_info option" where
  "parseErrorFromOutput now output =
     (case output of
        Some (JStr s) \<Rightarrow>
          (if s = [] then None
           else case first_pattern errorPatterns s of
             Some (t, g) \<Rightarrow>
               Some (parsed_error t (trim g) s (extractFileReferences s) (extractLineNumbers s) now)
           | None \<Rightarrow>
               (if str_includes s ''command not found'' \<or> str_includes s ''not recognized''
                then Some (parsed_error ''CommandNotFound'' (trim s) s [] [] now)
                else None))
      | _ \<Rightarrow> None)"

subsection \<open>compareErrors\<close>

text \<open>
  \<open>JSON.stringify\<close> is injective on arrays of strings, so \<open>sameFiles\<close> is equality of the
  two lists.
\<close>

definition compareErrors :: "error_info option \<Rightarrow> error_info option \<Rightarrow> comparison" where
  "compareErrors previousError currentError =
     (case (previousError, currentError) of
        (Some p, Some c) \<Rightarrow>
          (let sameType = (type_e p = type_e c);
               sameMessage = (message_e p = message_e c);
               sameFiles = (file_refs p = file_refs c)
           in \<lparr>is_new_error = (\<not> sameType \<and> \<not> sameFiles),
               is_same_error = (sameType \<and> sameMessage \<and> sameFiles),
               is_progression = (sameFiles \<and> \<not> sameType),
               resolution_status =
                 (if sameType \<and> sameMessage then ''persisted''
                  else if sameFiles then ''progressed'' else ''evolved'')\<rparr>)
      | _ \<Rightarrow>
          \<lparr>is_new_error = (currentError \<noteq> None \<and> previousError = None),
           is_same_error = False,
           is_progression = False,
           resolution_status = (if currentError \<noteq> None then ''new'' else ''resolved'')\<rparr>)"

subsection \<open>The agent context\<close>

text \<open>
  The action stored with a step. An ordinary step stores \<open>tool_used\<close>, \<open>tool_to_use\<close> and
  \<open>parameters\<close>; the recovery branch of the loop stores its \<open>fallbackAction\<close>, which has
  \<open>tool_to_use\<close> and \<open>tool_parameters\<close> only.
\<close>

record action =
  tool_used :: "string option"
  tool_to_use :: "string option"
  parameters :: "obj option"
  tool_parameters :: "obj option"

record step =
  step_no :: int
  thought :: string
  action_taken :: action
  result :: obj

record recent_action =
  signature :: string
  step_ra :: int
  tool_ra :: "string option"
  parameters_ra :: "obj option"
  result_ra :: obj

record knowledge_base =
  files_read :: "(string \<times> json) list"
  error_analysis_notes :: "json list"
  file_structure :: "json option"
  search_results :: "json option"
  file_metadata :: "json option"

record file_state =
  discovered_files :: "string list"
  primary_error_file :: "string option"
  file_mappings :: "(string \<times> string) list"

record constraints =
  max_session_steps :: "int option"

text \<open>
  The fields of the context that the functions below read or write. The request, the
  initial command, the tool descriptors and the environment information are not touched by
  them and are left out.
\<close>

record agent_context =
  current_working_directory :: string
  session_history :: "step list"
  knowledge_base :: knowledge_base
  file_state :: "file_state option"
  solved_issues :: "error_info list"
  current_blocking_error :: "error_info option"
  error_progression :: "progression list"
  recent_actions :: "recent_action list"
  constraints :: "constraints option"

subsection \<open>updateErrorState\<close>

text \<open>
  \<open>a || b\<close> on an optional step number: 0 is falsy, as \<open>undefined\<close> is.
\<close>

definition step_or :: "int option \<Rightarrow> int \<Rightarrow> int" where
  "step_or a b = (case a of None \<Rightarrow> b | Some n \<Rightarrow> if n = 0 then b else n)"

definition resolved :: "error_info \<Rightarrow> int \<Rightarrow> string \<Rightarrow> error_info" where
  "resolved previousError s now =
     previousError\<lparr>resolution_step := Some s, status_e := Some ''resolved'', resolved_at := Some now\<rparr>"

definition updateErrorState :: "string \<Rightarrow> agent_context \<Rightarrow> json option \<Rightarrow> int \<Rightarrow> agent_context" where
  "updateErrorState now context newErrorOutput currentStep =
     (let previousError = current_blocking_error context;
          parsedError = parseErrorFromOutput now newErrorOutput;
          context1 = context\<lparr>error_progression := error_progression context @
                        [\<lparr>step_p = currentStep, error_detected = parsedError,
                          previous_error = previousError, timestamp_p = now\<rparr>]\<rparr>
      in case parsedError of
           None \<Rightarrow>
             (case previousError of
                Some p \<Rightarrow>
                  context1\<lparr>solved_issues := solved_issues context1 @ [resolved p currentStep now],
                           current_blocking_error := None\<rparr>
              | None \<Rightarrow> context1)
         | Some e \<Rightarrow>
             (let errorComparison = compareErrors previousError parsedError
              in if is_new_error errorComparison \<or> is_progression errorComparison then
                   (let context2 =
                          (case previousError of
                             Some p \<Rightarrow>
                               context1\<lparr>solved_issues :=
                                          solved_issues context1 @ [resolved p (currentStep - 1) now]\<rparr>
                           | None \<Rightarrow> context1)
                    in context2\<lparr>current_blocking_error :=
                                  Some (e\<lparr>first_seen_step := Some currentStep,
                                          status_e := Some ''active''\<rparr>)\<rparr>)
                 else if is_same_error errorComparison then
                   context1\<lparr>current_blocking_error :=
                              Some (e\<lparr>first_seen_step :=
                                        Some (step_or (case current_blocking_error context1 of
                                                         None \<Rightarrow> None
                                                       | Some c \<Rightarrow> first_seen_step c) currentStep),
                                      last_seen_step := Some currentStep,
                                      status_e := Some ''active''\<rparr>)\<rparr>
                 else context1))"

subsection \<open>createActionSignature and shouldSkipAction\<close>

definition assoc_set :: "'k \<Rightarrow> 'v \<Rightarrow> ('k \<times> 'v) list \<Rightarrow> ('k \<times> 'v) list" where
  "assoc_set key v kvs =
     (if key \<in> fst ` set kvs then map (\<lambda>kv. if fst kv = key then (key, v) else kv) kvs
      else kvs @ [(key, v)])"

text \<open>
  \<open>if (keyParams.p) keyParams.p = keyParams.p.replace(process.cwd(), '.')\<close>: a truthy value
  that is no string has no \<open>replace\<close> method, and the call throws a TypeError.
\<close>

definition normalize_path :: "string \<Rightarrow> string \<Rightarrow> obj \<Rightarrow> obj outcome" where
  "normalize_path process_cwd key keyParams =
     (case map_of keyParams key of
        None \<Rightarrow> Returns keyParams
      | Some v \<Rightarrow>
          (if \<not> truthy v then Returns keyParams
           else case v of
                  JStr s \<Rightarrow> Returns (assoc_set key (JStr (replace_first process_cwd ''.'' s)) keyParams)
                | _ \<Rightarrow> Throws (''keyParams.'' @ key @ ''.replace is not a function'')))"

text \<open>
  \<open>{...parameters}\<close> of \<open>undefined\<close> is the empty object. The replacer of \<open>JSON.stringify\<close> is
  the sorted list of the keys.
\<close>

definition createActionSignature :: "string \<Rightarrow> string \<Rightarrow> obj option \<Rightarrow> string outcome" where
  "createActionSignature process_cwd toolName params =
     (let keyParams = (case params of None \<Rightarrow> [] | Some p \<Rightarrow> p)
      in case normalize_path process_cwd ''file_path'' keyParams of
           Throws m \<Rightarrow> Throws m
         | Returns kp1 \<Rightarrow>
             (case normalize_path process_cwd ''directory_path'' kp1 of
                Throws m \<Rightarrow> Throws m
              | Returns kp2 \<Rightarrow>
                  Returns (toolName @ '':'' @ stringify (sort (map fst kp2)) (JObj kp2))))"

record skip_check =
  should_skip :: bool
  duplicate_step :: "int option"
  reason :: "string option"

definition shouldSkipAction :: "string \<Rightarrow> string \<Rightarrow> obj option \<Rightarrow> agent_context \<Rightarrow> skip_check outcome" where
  "shouldSkipAction process_cwd toolName params context =
     (case createActionSignature process_cwd toolName params of
        Throws m \<Rightarrow> Throws m
      | Returns actionSignature \<Rightarrow>
          (let recentSteps = 3;
               recentDuplicate =
                 find (\<lambda>a. signature a = actionSignature \<and>
                            step_ra a > int (length (session_history context)) - recentSteps)
                      (recent_actions context)
           in Returns
                \<lparr>should_skip = (recentDuplicate \<noteq> None),
                 duplicate_step = map_option step_ra recentDuplicate,
                 reason = map_option
                   (\<lambda>a. ''Identical action performed in step '' @ show_int (step_ra a))
                   recentDuplicate\<rparr>))"

subsection \<open>updateAgentContext\<close>

text \<open>\<open>a || b\<close> on optional strings, and the text a template literal prints for the result.\<close>

definition str_or :: "string option \<Rightarrow> string option \<Rightarrow> string option" where
  "str_or a b = (case a of None \<Rightarrow> b | Some s \<Rightarrow> if s = [] then b else Some s)"

definition template_str :: "string option \<Rightarrow> string" where
  "template_str s = (case s of None \<Rightarrow> ''undefined'' | Some t \<Rightarrow> t)"

text \<open>The property key a value is converted to when it indexes an object.\<close>

fun property_key :: "json \<Rightarrow> string" where
  "property_key JNull = ''null''"
| "property_key (JBool b) = (if b then ''true'' else ''false'')"
| "property_key (JNum n) = show_int n"
| "property_key (JStr s) = s"
| "property_key (JArr xs) =
     intercalate '','' (map (\<lambda>x. if x = JNull then [] else property_key x) xs)"
| "property_key (JObj kvs) = ''[object Object]''"

definition property_key_opt :: "json option \<Rightarrow> string" where
  "property_key_opt v = (case v of None \<Rightarrow> ''undefined'' | Some j \<Rightarrow> property_key j)"

text \<open>\<open>xs.slice(-n)\<close>: the last \<open>n\<close> elements.\<close>

definition slice_last :: "nat \<Rightarrow> 'a list \<Rightarrow> 'a list" where
  "slice_last n xs = drop (length xs - n) xs"

definition is_read_file_action :: "action \<Rightarrow> bool" where
  "is_read_file_action a =
     (tool_used a = Some ''read_file_content'' \<or> tool_to_use a = Some ''read_file_content'')"

text \<open>
  \<open>updateAgentContext\<close> copies the context object shallowly and pushes onto the arrays it
  shares with the original, so when \<open>createActionSignature\<close> throws, the step is already
  in \<open>session_history\<close>: \<open>UpdateThrew\<close> carries that context.
\<close>

datatype updated = Updated agent_context | UpdateThrew string agent_context

definition updateAgentContext ::
  "string \<Rightarrow> agent_context \<Rightarrow> int \<Rightarrow> string \<Rightarrow> action \<Rightarrow> obj \<Rightarrow> updated" where
  "updateAgentContext process_cwd context stp thought' actionTaken res =
     (let c1 = context\<lparr>session_history := session_history context @
                  [\<lparr>step_no = stp, thought = thought', action_taken = actionTaken, result = res\<rparr>]\<rparr>;
          tool = str_or (tool_to_use actionTaken) (tool_used actionTaken)
      in case createActionSignature process_cwd (template_str tool) (parameters actionTaken) of
           Throws m \<Rightarrow> UpdateThrew m c1
         | Returns actionSignature \<Rightarrow>
             (let pushed = recent_actions c1 @
                    [\<lparr>signature = actionSignature, step_ra = stp, tool_ra = tool,
                      parameters_ra = parameters actionTaken, result_ra = res\<rparr>];
                  c2 = c1\<lparr>recent_actions :=
                            (if length pushed > 10 then slice_last 10 pushed else pushed)\<rparr>
              in if get_prop res ''status'' = Some (JStr ''success'') \<and>
                    is_read_file_action actionTaken \<and> truthy_opt (get_prop res ''content'')
                 then Updated
                   (c2\<lparr>knowledge_base := (knowledge_base c2)
                         \<lparr>files_read :=
                            assoc_set (property_key_opt (get_prop res ''file_path''))
                              (the (get_prop res ''content'')) (files_read (knowledge_base c2))\<rparr>\<rparr>)
                 else Updated c2))"

subsection \<open>shouldTerminateSession\<close>

record termination_check =
  should_terminate :: bool
  reason_t :: "string option"

definition maxSteps_of :: "agent_context \<Rightarrow> int" where
  "maxSteps_of agentContext =
     (case constraints agentContext of
        None \<Rightarrow> 20
      | Some c \<Rightarrow> (case max_session_steps c of None \<Rightarrow> 20 | Some n \<Rightarrow> if n = 0 then 20 else n))"

definition shouldTerminateSession :: "agent_context \<Rightarrow> termination_check" where
  "shouldTerminateSession agentContext =
     (let maxSteps = maxSteps_of agentContext;
          currentSteps = int (length (session_history agentContext))
      in if currentSteps \<ge> maxSteps then
           \<lparr>should_terminate = True,
            reason_t = Some (''Maximum session steps ('' @ show_int maxSteps @ '') reached'')\<rparr>
         else
           (let recentSteps = slice_last 3 (session_history agentContext);
                failedSteps = filter (\<lambda>s. get_prop (result s) ''status'' = Some (JStr ''error''))
                                recentSteps
            in if length failedSteps \<ge> 3 then
                 \<lparr>should_terminate = True,
                  reason_t = Some ''Multiple consecutive failures detected''\<rparr>
               else \<lparr>should_terminate = False, reason_t = None\<rparr>))"

section \<open>Tool layer (core/agent_tools.js) and the agent loop (cli/index.js)\<close>

subsection \<open>File-state resolution and read_file_content\<close>

text \<open>
  What the tool asks of Node's \<open>fs\<close> and \<open>path\<close> modules and of \<open>readFileContext\<close>; a
  failing read throws. \<open>readFileContext\<close> returns \<open>content\<close>, \<open>start\<close> and \<open>end\<close>.
\<close>

record fs_env =
  existsSync :: "string \<Rightarrow> bool"
  path_resolve :: "string \<Rightarrow> string \<Rightarrow> string"
  path_relative :: "string \<Rightarrow> string \<Rightarrow> string"
  readFile :: "string \<Rightarrow> string outcome"
  readFileContext :: "string \<Rightarrow> int \<Rightarrow> int \<Rightarrow> (string \<times> int \<times> int) outcome"

text \<open>
  The parameters of \<open>read_file_content\<close>; \<open>file_path\<close> is a string, the line numbers may
  be undefined.
\<close>

record read_params =
  file_path :: string
  start_line :: "int option"
  end_line :: "int option"

definition cwd_or_dot :: "agent_context \<Rightarrow> string" where
  "cwd_or_dot context =
     (if current_working_directory context = [] then ''.'' else current_working_directory context)"

definition nonempty_opt :: "string option \<Rightarrow> bool" where
  "nonempty_opt s = (case s of None \<Rightarrow> False | Some t \<Rightarrow> t \<noteq> [])"

definition resolveFileWithState :: "'e fs_env_scheme \<Rightarrow> string \<Rightarrow> agent_context \<Rightarrow> string" where
  "resolveFileWithState env requestedPath context =
     (case file_state context of
        None \<Rightarrow> requestedPath
      | Some fs \<Rightarrow>
          if nonempty_opt (map_of (file_mappings fs) requestedPath)
            then the (map_of (file_mappings fs) requestedPath)
          else if existsSync env (path_resolve env (cwd_or_dot context) requestedPath)
            then requestedPath
          else if nonempty_opt (primary_error_file fs) then the (primary_error_file fs)
          else if discovered_files fs \<noteq> [] then hd (discovered_files fs)
          else requestedPath)"

definition falsy_line :: "int option \<Rightarrow> bool" where
  "falsy_line n = (n = None \<or> n = Some 0)"

definition line_or :: "int option \<Rightarrow> int \<Rightarrow> int" where
  "line_or n d = (if falsy_line n then d else the n)"

text \<open>\<open>content.split('\n').length\<close>.\<close>

definition line_count :: "string \<Rightarrow> int" where
  "line_count s = int (length (filter (\<lambda>c. c = CHR 0x0A) s)) + 1"

text \<open>\<open>xs.findLast(p)\<close>.\<close>

definition findLast :: "('a \<Rightarrow> bool) \<Rightarrow> 'a list \<Rightarrow> 'a option" where
  "findLast p xs = find p (rev xs)"

definition reads_same_path :: "string \<Rightarrow> step \<Rightarrow> bool" where
  "reads_same_path fp s =
     (is_read_file_action (action_taken s) \<and>
      (case parameters (action_taken s) of
         None \<Rightarrow> False
       | Some ps \<Rightarrow> get_prop ps ''file_path'' = Some (JStr fp)))"

definition failed_read :: "string \<Rightarrow> obj" where
  "failed_read m = [(''status'', JStr ''error''), (''message'', JStr (''Failed to read file: '' @ m))]"

text \<open>
  The paths the tool computes: the requested path after file-state resolution, made
  absolute against the working directory of the session, and that path made relative to
  it again.
\<close>

definition resolvedPath_of :: "'e fs_env_scheme \<Rightarrow> read_params \<Rightarrow> agent_context \<Rightarrow> string" where
  "resolvedPath_of env params context =
     path_resolve env (cwd_or_dot context)
       (if file_state context \<noteq> None then resolveFileWithState env (file_path params) context
        else file_path params)"

definition relativePath_of :: "'e fs_env_scheme \<Rightarrow> read_params \<Rightarrow> agent_context \<Rightarrow> string" where
  "relativePath_of env params context =
     path_relative env (cwd_or_dot context) (resolvedPath_of env params context)"

definition lastRead_of :: "read_params \<Rightarrow> agent_context \<Rightarrow> step option" where
  "lastRead_of params context =
     findLast (reads_same_path (file_path params)) (session_history context)"

text \<open>
  The two nested conditions under which the cached content is returned: no line range, a
  truthy entry of \<open>files_read\<close> under the relative path, and a last read of the same
  requested path fewer than 3 steps back.
\<close>

definition cache_hit :: "'e fs_env_scheme \<Rightarrow> read_params \<Rightarrow> agent_context \<Rightarrow> bool" where
  "cache_hit env params context =
     (falsy_line (start_line params) \<and> falsy_line (end_line params) \<and>
      truthy_opt (map_of (files_read (knowledge_base context)) (relativePath_of env params context)) \<and>
      (case lastRead_of params context of
         None \<Rightarrow> False
       | Some s \<Rightarrow> int (length (session_history context)) - step_no s < 3))"

definition read_success :: "string \<Rightarrow> string \<Rightarrow> int \<Rightarrow> int \<Rightarrow> obj" where
  "read_success relativePath text first final =
     [(''status'', JStr ''success''), (''file_path'', JStr relativePath), (''content'', JStr text),
      (''lines_read'', JArr [JNum first, JNum final]), (''total_lines'', JNum (line_count text))]"

text \<open>
  The body of the tool. Every exception is caught by the tool's own \<open>try\<close> and returned as
  an error result. The cache is consulted before the file is looked up on disk.
\<close>

definition read_file_content :: "'e fs_env_scheme \<Rightarrow> read_params \<Rightarrow> agent_context \<Rightarrow> obj" where
  "read_file_content env params context =
     (let resolvedPath = resolvedPath_of env params context;
          relativePath = relativePath_of env params context
      in if cache_hit env params context then
           (case map_of (files_read (knowledge_base context)) relativePath of
              Some (JStr text) \<Rightarrow>
                [(''status'', JStr ''success''), (''file_path'', JStr relativePath),
                 (''content'', JStr text),
                 (''note'', JStr (''Using cached content from step '' @
                           show_int (step_no (the (lastRead_of params context))))),
                 (''cached'', JBool True),
                 (''lines_read'', JArr [JNum 1, JNum (line_count text)]),
                 (''total_lines'', JNum (line_count text))]
            | _ \<Rightarrow>
                failed_read ''context.knowledge_base.files_read[relativePath].split is not a function'')
         else if \<not> existsSync env resolvedPath then
           [(''status'', JStr ''error''), (''message'', JStr (''File not found: '' @ file_path params))]
         else if \<not> falsy_line (start_line params) \<or> \<not> falsy_line (end_line params) then
           (case readFileContext env resolvedPath (line_or (start_line params) 1)
                   (if falsy_line (end_line params) then 50
                    else the (end_line params) - line_or (start_line params) 1 + 1) of
              Throws m \<Rightarrow> failed_read m
            | Returns (text, first, final) \<Rightarrow> read_success relativePath text first final)
         else
           (case readFile env resolvedPath of
              Throws m \<Rightarrow> failed_read m
            | Returns text \<Rightarrow> read_success relativePath text 1 (line_count text)))"

subsection \<open>executeAgentTool\<close>

text \<open>
  A tool function gets the parameters and the context; it returns an object or throws, and
  it may have changed the knowledge base and the file state of the context in place.
  The table \<open>toolFunctions\<close> is the lookup \<open>toolFunctions[toolName]\<close>: \<open>None\<close> where the
  lookup is undefined. Tool functions are taken to return objects, as every tool of the
  catalog does.
\<close>

type_synonym tool_fn =
  "obj option \<Rightarrow> agent_context \<Rightarrow> obj outcome \<times> knowledge_base \<times> file_state option"

definition skipped_result :: "skip_check \<Rightarrow> agent_context \<Rightarrow> obj" where
  "skipped_result skipCheck context =
     [(''status'', JStr ''skipped''),
      (''message'', JStr (''Action skipped - '' @
          (case reason skipCheck of None \<Rightarrow> ''null'' | Some r \<Rightarrow> r)))]
     @ (case duplicate_step skipCheck of None \<Rightarrow> [] | Some d \<Rightarrow> [(''duplicate_step'', JNum d)])
     @ (case find (\<lambda>a. Some (step_ra a) = duplicate_step skipCheck) (recent_actions context) of
          None \<Rightarrow> []
        | Some a \<Rightarrow> [(''previous_result'', JObj (result_ra a))])"

definition executeAgentTool ::
  "(string \<Rightarrow> tool_fn option) \<Rightarrow> string \<Rightarrow> string \<Rightarrow> obj option \<Rightarrow> agent_context
     \<Rightarrow> obj outcome \<times> agent_context" where
  "executeAgentTool toolFunctions process_cwd toolName params context =
     (case shouldSkipAction process_cwd toolName params context of
        Throws m \<Rightarrow> (Throws m, context)
      | Returns skipCheck \<Rightarrow>
          if should_skip skipCheck then (Returns (skipped_result skipCheck context), context)
          else
            (case toolFunctions toolName of
               None \<Rightarrow>
                 (Returns [(''status'', JStr ''error''),
                           (''message'', JStr (''Unknown tool: '' @ toolName))], context)
             | Some toolFunction \<Rightarrow>
                 (case toolFunction params context of
                    (Throws m, kb, fs) \<Rightarrow>
                      (Returns [(''status'', JStr ''error''),
                                (''message'', JStr (''Tool execution failed: '' @ m))],
                       context\<lparr>knowledge_base := kb, file_state := fs\<rparr>)
                  | (Returns r, kb, fs) \<Rightarrow>
                      (Returns r, context\<lparr>knowledge_base := kb, file_state := fs\<rparr>))))"

subsection \<open>The agent loop of debugLoop\<close>

record agent_action =
  thought_a :: string
  tool_to_use_a :: string
  tool_parameters_a :: "obj option"

text \<open>
  What the loop asks of its surroundings at step \<open>n\<close>: the planner (with the prompt
  statistics computed next to it; an exception of either goes to the recovery branch), the
  tool table, the clock and the working directory of the process.
\<close>

record world =
  process_cwd :: string
  clock :: "int \<Rightarrow> string"
  determineNextAgentAction :: "int \<Rightarrow> agent_context \<Rightarrow> agent_action outcome"
  toolFunctions :: "int \<Rightarrow> string \<Rightarrow> tool_fn option"

datatype flow = Continue | Break

text \<open>A call of \<open>executeAgentTool\<close>: the step, the tool name and the parameters.\<close>

type_synonym call = "int \<times> string \<times> obj option"

definition recovery_question :: "string \<Rightarrow> obj" where
  "recovery_question m =
     [(''question_for_user'',
       JStr (''I encountered an error: '' @ m @ ''. How would you like me to proceed?''))]"

definition fallbackAction :: "string \<Rightarrow> action" where
  "fallbackAction m =
     \<lparr>tool_used = None, tool_to_use = Some ''ask_user_for_clarification'', parameters = None,
      tool_parameters = Some (recovery_question m)\<rparr>"

text \<open>The \<open>catch\<close> branch of a step.\<close>

definition recover :: "world \<Rightarrow> int \<Rightarrow> agent_context \<Rightarrow> string \<Rightarrow> flow \<times> agent_context \<times> call list" where
  "recover w n context m =
     (case executeAgentTool (toolFunctions w n) (process_cwd w) ''ask_user_for_clarification''
             (Some (recovery_question m)) context of
        (Throws m', c1) \<Rightarrow>
          (Break, c1, [(n, ''ask_user_for_clarification'', Some (recovery_question m))])
      | (Returns userGuidance, c1) \<Rightarrow>
          (case updateAgentContext (process_cwd w) c1 n (''Recovery attempt after error: '' @ m)
                  (fallbackAction m) userGuidance of
             Updated c2 \<Rightarrow>
               (Continue, c2, [(n, ''ask_user_for_clarification'', Some (recovery_question m))])
           | UpdateThrew m' c2 \<Rightarrow>
               (Break, c2, [(n, ''ask_user_for_clarification'', Some (recovery_question m))])))"

definition with_call :: "call \<Rightarrow> flow \<times> agent_context \<times> call list \<Rightarrow> flow \<times> agent_context \<times> call list" where
  "with_call c r = (case r of (f, context, calls) \<Rightarrow> (f, context, c # calls))"

text \<open>The \<open>try\<close> block of a step, after the termination check.\<close>

definition agent_step :: "world \<Rightarrow> int \<Rightarrow> agent_context \<Rightarrow> flow \<times> agent_context \<times> call list" where
  "agent_step w n context =
     (case determineNextAgentAction w n context of
        Throws m \<Rightarrow> recover w n context m
      | Returns agentAction \<Rightarrow>
          (let t = tool_to_use_a agentAction;
               ps = tool_parameters_a agentAction
           in case executeAgentTool (toolFunctions w n) (process_cwd w) t ps context of
                (Throws m, c1) \<Rightarrow> with_call (n, t, ps) (recover w n c1 m)
              | (Returns toolResult, c1) \<Rightarrow>
                  if get_prop toolResult ''status'' = Some (JStr ''finished'') then (Break, c1, [(n, t, ps)])
                  else
                    (case updateAgentContext (process_cwd w) c1 n (thought_a agentAction)
                            \<lparr>tool_used = Some t, tool_to_use = Some t, parameters = ps,
                             tool_parameters = None\<rparr> toolResult of
                       UpdateThrew m c2 \<Rightarrow> with_call (n, t, ps) (recover w n c2 m)
                     | Updated c2 \<Rightarrow>
                         (let c3 = (if t = ''run_diagnostic_command'' \<and>
                                        truthy_opt (get_prop toolResult ''stderr'')
                                    then updateErrorState (clock w n) c2 (get_prop toolResult ''stderr'') n
                                    else c2)
                          in (if t = ''finish_debugging'' then Break else Continue, c3, [(n, t, ps)])))))"

text \<open>
  \<open>while (stepCount < maxSteps)\<close> with \<open>maxSteps = 20\<close>: the step counter is incremented,
  the termination check runs, and only then the step. The result is the final context and
  the calls of \<open>executeAgentTool\<close> made, in order.
\<close>

function agent_loop :: "world \<Rightarrow> int \<Rightarrow> agent_context \<Rightarrow> call list \<Rightarrow> agent_context \<times> call list" where
  "agent_loop w stepCount context calls =
     (if stepCount < 20 then
        (if should_terminate (shouldTerminateSession context) then (context, calls)
         else
           (case agent_step w (stepCount + 1) context of
              (Continue, c, cs) \<Rightarrow> agent_loop w (stepCount + 1) c (calls @ cs)
            | (Break, c, cs) \<Rightarrow> (c, calls @ cs)))
      else (context, calls))"
  by pat_completeness auto
termination
  by (relation "measure (\<lambda>(w, stepCount, context, calls). nat (20 - stepCount))") auto

declare agent_loop.simps [simp del]

text \<open>
  \<open>debugLoop\<close> after the initial command has run: nothing happens when the command
  succeeded and its output does not mention an error; otherwise the error state is
  initialised from the output of a failed command and the loop starts at step count 0.
\<close>

definition debugLoop ::
  "world \<Rightarrow> agent_context \<Rightarrow> bool \<Rightarrow> string \<Rightarrow> (agent_context \<times> call list) option" where
  "debugLoop w initialContext ok output =
     (if ok \<and> \<not> str_includes (toLowerCase output) ''error'' then None
      else Some (agent_loop w 0
                   (if \<not> ok \<and> output \<noteq> []
                    then updateErrorState (clock w 0) initialContext (Some (JStr output)) 0
                    else initialContext) []))"

subsection \<open>Sample sessions\<close>

definition empty_kb :: knowledge_base where
  "empty_kb = \<lparr>files_read = [], error_analysis_notes = [], file_structure = None,
               search_results = None, file_metadata = None\<rparr>"

text \<open>The context at the start of a session, before any error state is set.\<close>

definition initial_context :: agent_context where
  "initial_context =
     \<lparr>current_working_directory = ''/home/u/proj'', session_history = [], knowledge_base = empty_kb,
      file_state = None, solved_issues = [], current_blocking_error = None, error_progression = [],
      recent_actions = [],
      constraints = Some \<lparr>max_session_steps = Some 20\<rparr>\<rparr>"

text \<open>Two outputs with errors of the same type, in no file, with different messages.\<close>

definition value_error_1 :: string where
  "value_error_1 = ''ValueError: invalid literal''"

definition value_error_2 :: string where
  "value_error_2 = ''ValueError: math domain error''"

text \<open>The context after the initial command failed with the first error.\<close>

definition stale_context :: agent_context where
  "stale_context = updateErrorState ''t0'' initial_context (Some (JStr value_error_1)) 0"

text \<open>
  A tool table: a user who answers every question, a finishing tool, and a diagnostic
  command whose subprocess cannot be spawned.
\<close>

definition pure_tool :: "obj \<Rightarrow> tool_fn" where
  "pure_tool r = (\<lambda>ps context. (Returns r, knowledge_base context, file_state context))"

definition ex_tools :: "string \<Rightarrow> tool_fn option" where
  "ex_tools name =
     (if name = ''ask_user_for_clarification''
        then Some (pure_tool [(''status'', JStr ''success''), (''user_response'', JStr ''retry'')])
      else if name = ''finish_debugging''
        then Some (pure_tool [(''status'', JStr ''finished''),
                              (''final_status'', JStr ''cannot_resolve'')])
      else if name = ''run_diagnostic_command''
        then Some (\<lambda>ps context. (Throws ''spawn failed'', knowledge_base context, file_state context))
      else None)"

definition finish_action :: agent_action where
  "finish_action =
     \<lparr>thought_a = ''stop'', tool_to_use_a = ''finish_debugging'',
      tool_parameters_a = Some [(''final_status'', JStr ''cannot_resolve'')]\<rparr>"

text \<open>A planner whose answer cannot be parsed at steps 1 and 2, and that finishes at step 3.\<close>

definition failing_planner_world :: world where
  "failing_planner_world =
     \<lparr>process_cwd = ''/home/u/proj'', clock = (\<lambda>n. ''t''),
      determineNextAgentAction =
        (\<lambda>n context. if n \<le> 2 then Throws ''no JSON in response'' else Returns finish_action),
      toolFunctions = (\<lambda>n. ex_tools)\<rparr>"

definition recovery_step :: "int \<Rightarrow> step" where
  "recovery_step n =
     \<lparr>step_no = n, thought = ''Recovery attempt after error: no JSON in response'',
      action_taken = fallbackAction ''no JSON in response'',
      result = [(''status'', JStr ''success''), (''user_response'', JStr ''retry'')]\<rparr>"

definition recovery_recent :: "int \<Rightarrow> recent_action" where
  "recovery_recent n =
     \<lparr>signature = ''ask_user_for_clarification:{}'', step_ra = n,
      tool_ra = Some ''ask_user_for_clarification'', parameters_ra = None,
      result_ra = [(''status'', JStr ''success''), (''user_response'', JStr ''retry'')]\<rparr>"




text \<open>Three steps in a row that failed.\<close>

definition error_step :: "int \<Rightarrow> step" where
  "error_step n =
     \<lparr>step_no = n, thought = ''read'',
      action_taken = \<lparr>tool_used = Some ''read_file_content'', tool_to_use = Some ''read_file_content'',
                       parameters = Some [(''file_path'', JStr (''f'' @ show_int n))],
                       tool_parameters = None\<rparr>,
      result = [(''status'', JStr ''error''), (''message'', JStr ''File not found'')]\<rparr>"


text \<open>
  A file system in which no file exists (the file read at step 1 has been deleted since),
  with paths joined and split in the simplest way.
\<close>

definition ex_env :: fs_env where
  "ex_env =
     \<lparr>existsSync = (\<lambda>p. False),
      path_resolve = (\<lambda>cwd p. cwd @ ''/'' @ p),
      path_relative = (\<lambda>cwd p. drop (length cwd + 1) p),
      readFile = (\<lambda>p. Throws ''ENOENT''),
      readFileContext = (\<lambda>p a b. Throws ''ENOENT'')\<rparr>"



definition full_read :: "string \<Rightarrow> read_params" where
  "full_read p = \<lparr>file_path = p, start_line = None, end_line = None\<rparr>"



subsection \<open>Properties of a session history\<close>

text \<open>
  The signature \<open>updateAgentContext\<close> records for a step: computed from the tool name and
  the \<open>parameters\<close> field of the recorded action.
\<close>

definition step_signature :: "string \<Rightarrow> step \<Rightarrow> string outcome" where
  "step_signature cwd s =
     createActionSignature cwd
       (template_str (str_or (tool_to_use (action_taken s)) (tool_used (action_taken s))))
       (parameters (action_taken s))"

text \<open>
  An entry of \<open>recent_actions\<close> records a step of the history; \<open>recent_actions\<close> mirrors
  the history when it records its last ten steps, in order, and the steps are numbered
  from 1.
\<close>

definition recorded :: "string \<Rightarrow> step \<Rightarrow> recent_action \<Rightarrow> bool" where
  "recorded cwd s e =
     (step_signature cwd s = Returns (signature e) \<and> step_ra e = step_no s \<and> result_ra e = result s)"

definition mirrors :: "string \<Rightarrow> agent_context \<Rightarrow> bool" where
  "mirrors cwd c =
     (list_all2 (recorded cwd) (slice_last 10 (session_history c)) (recent_actions c) \<and>
      map step_no (session_history c) = map int [1..<Suc (length (session_history c))])"

text \<open>
  A step the planner chose (the loop records the tool under \<open>tool_used\<close> as well; the
  recovery branch does not), and a result that reports a skipped duplicate.
\<close>

definition ordinary :: "step \<Rightarrow> bool" where
  "ordinary s = (tool_used (action_taken s) \<noteq> None)"

definition skipped_as_duplicate :: "obj \<Rightarrow> bool" where
  "skipped_as_duplicate r =
     (get_prop r ''status'' = Some (JStr ''skipped'') \<and>
      (\<exists>d. get_prop r ''duplicate_step'' = Some (JNum d)) \<and>
      (\<exists>p. get_prop r ''previous_result'' = Some (JObj p)))"

text \<open>
  A history is deduplicated when every step the planner chose that has the recorded
  signature of one of the three steps before it carries the result of a skipped duplicate.
\<close>

definition deduplicated :: "string \<Rightarrow> step list \<Rightarrow> bool" where
  "deduplicated cwd hist =
     (\<forall>i j sg. i < j \<and> j < length hist \<and> j \<le> i + 3 \<and> ordinary (hist ! j) \<and>
        step_signature cwd (hist ! i) = Returns sg \<and> step_signature cwd (hist ! j) = Returns sg
        \<longrightarrow> skipped_as_duplicate (result (hist ! j)))"

text \<open>A planner that asks the user the same question at steps 1 and 2, and finishes at step 3.\<close>

definition ask_again :: agent_action where
  "ask_again =
     \<lparr>thought_a = ''ask'', tool_to_use_a = ''ask_user_for_clarification'',
      tool_parameters_a = Some [(''question_for_user'', JStr ''Which file?'')]\<rparr>"

definition repeating_planner_world :: world where
  "repeating_planner_world =
     \<lparr>process_cwd = ''/home/u/proj'', clock = (\<lambda>n. ''t''),
      determineNextAgentAction =
        (\<lambda>n context. if n \<le> 2 then Returns ask_again else Returns finish_action),
      toolFunctions = (\<lambda>n. ex_tools)\<rparr>"


section \<open>Context optimizer (core/agent_prompt.js) on a store of objects\<close>

text \<open>
  \<open>optimizeAgentContext\<close> assigns to properties of objects and deletes properties, so what
  it leaves unchanged depends on which objects its variable \<open>context\<close> shares with the
  context it was given. Here the objects that the program ever changes in place live in a
  store: the context object, its knowledge base, the \<open>files_read\<close> object and the arrays.
  A property that refers to such an object holds its address. Steps, errors, notes and
  tool descriptors inside the arrays are plain data: the optimizer only reads them. The
  contents of \<open>files_read\<close> are strings.
\<close>

type_synonym addr = nat

text \<open>
  An entry of \<open>session_history\<close>: a step, or the summary entry that the optimizer puts in
  front of its copy (\<open>step: "summary"\<close>, with the summary text).
\<close>

datatype hstep = Plain step | Summary string

record ctx_cell =
  c_current_blocking_error :: "error_info option"
  c_session_history :: addr
  c_knowledge_base :: addr
  c_recent_actions :: addr
  c_error_progression :: "addr option"
  c_available_tools :: addr
  c_other :: obj

record kb_cell =
  k_files_read :: addr
  k_error_analysis_notes :: addr
  k_other :: obj

datatype cell = Ctx ctx_cell | Kb kb_cell | Files "(string \<times> string) list" | Steps "hstep list"
  | Recents "recent_action list" | Progressions "progression list" | Notes "json list"
  | Tools "obj list"

type_synonym store = "cell list"

definition lookup :: "store \<Rightarrow> addr \<Rightarrow> cell option" where
  "lookup h a = (if a < length h then Some (h ! a) else None)"

text \<open>
  A statement of the program: it runs on a store and returns a value or throws, leaving
  the store it has reached.
\<close>

type_synonym 'a prog = "store \<Rightarrow> 'a outcome \<times> store"

definition hbind :: "'a prog \<Rightarrow> ('a \<Rightarrow> 'b prog) \<Rightarrow> 'b prog" where
  "hbind p f h = (case p h of (Throws m, h1) \<Rightarrow> (Throws m, h1) | (Returns x, h1) \<Rightarrow> f x h1)"

definition hreturn :: "'a \<Rightarrow> 'a prog" where
  "hreturn x h = (Returns x, h)"

text \<open>A new object gets the next free address.\<close>

definition new_cell :: "cell \<Rightarrow> addr prog" where
  "new_cell c h = (Returns (length h), h @ [c])"

definition write_cell :: "addr \<Rightarrow> cell \<Rightarrow> unit prog" where
  "write_cell a c h =
     (if a < length h then (Returns (), h[a := c]) else (Throws ''TypeError: no such object'', h))"

text \<open>
  Reading through a reference. In a store built by the program every reference leads to
  an object of its kind; where it does not, the read throws.
\<close>

definition read_ctx :: "addr \<Rightarrow> ctx_cell prog" where
  "read_ctx a h =
     (case lookup h a of Some (Ctx c) \<Rightarrow> (Returns c, h) | _ \<Rightarrow> (Throws ''TypeError: no context'', h))"

definition read_kb :: "addr \<Rightarrow> kb_cell prog" where
  "read_kb a h =
     (case lookup h a of Some (Kb kc) \<Rightarrow> (Returns kc, h) | _ \<Rightarrow> (Throws ''TypeError: no knowledge base'', h))"

definition read_files :: "addr \<Rightarrow> (string \<times> string) list prog" where
  "read_files a h =
     (case lookup h a of Some (Files fs) \<Rightarrow> (Returns fs, h) | _ \<Rightarrow> (Throws ''TypeError: no files_read'', h))"

definition read_steps :: "addr \<Rightarrow> hstep list prog" where
  "read_steps a h =
     (case lookup h a of Some (Steps xs) \<Rightarrow> (Returns xs, h) | _ \<Rightarrow> (Throws ''TypeError: no session_history'', h))"

definition read_recents :: "addr \<Rightarrow> recent_action list prog" where
  "read_recents a h =
     (case lookup h a of Some (Recents xs) \<Rightarrow> (Returns xs, h) | _ \<Rightarrow> (Throws ''TypeError: no recent_actions'', h))"

definition read_progressions :: "addr \<Rightarrow> progression list prog" where
  "read_progressions a h =
     (case lookup h a of Some (Progressions xs) \<Rightarrow> (Returns xs, h)
      | _ \<Rightarrow> (Throws ''TypeError: no error_progression'', h))"

definition read_notes :: "addr \<Rightarrow> json list prog" where
  "read_notes a h =
     (case lookup h a of Some (Notes xs) \<Rightarrow> (Returns xs, h) | _ \<Rightarrow> (Throws ''TypeError: no notes'', h))"

definition read_tools :: "addr \<Rightarrow> obj list prog" where
  "read_tools a h =
     (case lookup h a of Some (Tools xs) \<Rightarrow> (Returns xs, h) | _ \<Rightarrow> (Throws ''TypeError: no tools'', h))"

text \<open>Assignment to a property of the context object or of the knowledge base.\<close>

definition set_ctx :: "addr \<Rightarrow> (ctx_cell \<Rightarrow> ctx_cell) \<Rightarrow> unit prog" where
  "set_ctx a f = hbind (read_ctx a) (\<lambda>c. write_cell a (Ctx (f c)))"

definition set_kb :: "addr \<Rightarrow> (kb_cell \<Rightarrow> kb_cell) \<Rightarrow> unit prog" where
  "set_kb a f = hbind (read_kb a) (\<lambda>kc. write_cell a (Kb (f kc)))"

text \<open>Changing the \<open>files_read\<close> object in place: deleting or overwriting its properties.\<close>

definition modify_files :: "addr \<Rightarrow> ((string \<times> string) list \<Rightarrow> (string \<times> string) list) \<Rightarrow> unit prog" where
  "modify_files a f = hbind (read_files a) (\<lambda>fs. write_cell a (Files (f fs)))"

subsection \<open>The deep clone\<close>

text \<open>
  \<open>JSON.parse(JSON.stringify(agentContext))\<close>: the text is produced by reading every object
  that the context reaches, and parsing it builds a new object for each of them.
\<close>

definition read_progressions_opt :: "addr option \<Rightarrow> progression list option prog" where
  "read_progressions_opt a =
     (case a of None \<Rightarrow> hreturn None
      | Some b \<Rightarrow> hbind (read_progressions b) (\<lambda>xs. hreturn (Some xs)))"

definition new_progressions_opt :: "progression list option \<Rightarrow> addr option prog" where
  "new_progressions_opt xs =
     (case xs of None \<Rightarrow> hreturn None
      | Some ys \<Rightarrow> hbind (new_cell (Progressions ys)) (\<lambda>a. hreturn (Some a)))"

definition deep_clone :: "addr \<Rightarrow> addr prog" where
  "deep_clone agentContext =
     hbind (read_ctx agentContext) (\<lambda>c.
     hbind (read_steps (c_session_history c)) (\<lambda>steps.
     hbind (read_kb (c_knowledge_base c)) (\<lambda>kb.
     hbind (read_files (k_files_read kb)) (\<lambda>files.
     hbind (read_notes (k_error_analysis_notes kb)) (\<lambda>notes.
     hbind (read_recents (c_recent_actions c)) (\<lambda>recents.
     hbind (read_progressions_opt (c_error_progression c)) (\<lambda>progs.
     hbind (read_tools (c_available_tools c)) (\<lambda>tools.
     hbind (new_cell (Steps steps)) (\<lambda>sa.
     hbind (new_cell (Files files)) (\<lambda>fa.
     hbind (new_cell (Notes notes)) (\<lambda>na.
     hbind (new_cell (Kb (kb\<lparr>k_files_read := fa, k_error_analysis_notes := na\<rparr>))) (\<lambda>ka.
     hbind (new_cell (Recents recents)) (\<lambda>ra.
     hbind (new_progressions_opt progs) (\<lambda>pa.
     hbind (new_cell (Tools tools)) (\<lambda>ta.
     new_cell (Ctx (c\<lparr>c_session_history := sa, c_knowledge_base := ka, c_recent_actions := ra,
                       c_error_progression := pa, c_available_tools := ta\<rparr>)))))))))))))))))"

subsection \<open>optimizeAgentContext\<close>

fun step_number :: "hstep \<Rightarrow> int option" where
  "step_number (Plain s) = Some (step_no s)"
| "step_number (Summary t) = None"

fun step_tool_used :: "hstep \<Rightarrow> string option" where
  "step_tool_used (Plain s) = tool_used (action_taken s)"
| "step_tool_used (Summary t) = Some ''summary''"

fun step_tool_to_use :: "hstep \<Rightarrow> string option" where
  "step_tool_to_use (Plain s) = tool_to_use (action_taken s)"
| "step_tool_to_use (Summary t) = None"

fun step_status :: "hstep \<Rightarrow> json option" where
  "step_status (Plain s) = get_prop (result s) ''status''"
| "step_status (Summary t) = Some (JStr ''summarized'')"

definition uses_tool :: "string \<Rightarrow> hstep \<Rightarrow> bool" where
  "uses_tool t s = (step_tool_used s = Some t \<or> step_tool_to_use s = Some t)"

text \<open>
  The filter of the focus mode; the comparison of the text \<open>summary\<close> with a number is
  false.
\<close>

definition relevant_step :: "nat \<Rightarrow> hstep \<Rightarrow> bool" where
  "relevant_step len s =
     ((case step_number s of None \<Rightarrow> False | Some n \<Rightarrow> n > int len - 5) \<or>
      uses_tool ''propose_code_patch'' s \<or> uses_tool ''propose_fix_by_command'' s)"

text \<open>\<open>path.split('/').pop()\<close>.\<close>

definition last_segment :: "string \<Rightarrow> string" where
  "last_segment path = rev (takeWhile (\<lambda>c. c \<noteq> CHR ''/'') (rev path))"

definition is_relevant_file :: "string list \<Rightarrow> string \<Rightarrow> bool" where
  "is_relevant_file relevantFiles path =
     list_ex (\<lambda>ref. str_includes path ref \<or> str_includes ref (last_segment path)) relevantFiles"

text \<open>
  The focus mode. Every \<open>context.p\<close> of the source reads the context object again. The
  loop that deletes the irrelevant properties leaves the relevant ones.
\<close>

definition focus_mode :: "addr \<Rightarrow> error_info \<Rightarrow> unit prog" where
  "focus_mode context blocking =
     hbind (read_ctx context) (\<lambda>c.
     hbind (read_steps (c_session_history c)) (\<lambda>hist.
     hbind (new_cell (Steps
              (if length (filter (relevant_step (length hist)) hist) < 3 \<and> length hist \<ge> 3
               then slice_last 3 hist else filter (relevant_step (length hist)) hist))) (\<lambda>sa.
     hbind (set_ctx context (\<lambda>c. c\<lparr>c_session_history := sa\<rparr>)) (\<lambda>_.
     hbind (if file_refs blocking \<noteq> [] then
              hbind (read_ctx context) (\<lambda>c.
              hbind (read_kb (c_knowledge_base c)) (\<lambda>kb.
                modify_files (k_files_read kb)
                  (filter (\<lambda>kv. is_relevant_file (file_refs blocking) (fst kv)))))
            else hreturn ()) (\<lambda>_.
     hbind (read_ctx context) (\<lambda>c.
     hbind (read_recents (c_recent_actions c)) (\<lambda>recents.
       if length recents > 5 then
         hbind (new_cell (Recents (slice_last 5 recents))) (\<lambda>ra.
           set_ctx context (\<lambda>c. c\<lparr>c_recent_actions := ra\<rparr>))
       else hreturn ())))))))"

text \<open>What a template literal prints for a value.\<close>

definition template_json :: "json option \<Rightarrow> string" where
  "template_json v = (case v of None \<Rightarrow> ''undefined'' | Some j \<Rightarrow> property_key j)"

definition template_step_number :: "hstep \<Rightarrow> string" where
  "template_step_number s = (case step_number s of None \<Rightarrow> ''summary'' | Some n \<Rightarrow> show_int n)"

definition summary_line :: "hstep \<Rightarrow> string" where
  "summary_line s =
     ''Step '' @ template_step_number s @ '': '' @
     template_str (str_or (step_tool_used s) (step_tool_to_use s)) @ '' - '' @
     template_json (step_status s)"

definition summary_text :: "hstep list \<Rightarrow> string" where
  "summary_text older =
     ''Previous '' @ show_int (int (length older)) @ '' steps: '' @
     intercalate '', '' (map summary_line older)"

text \<open>Without a blocking error: the older steps are replaced by one summary entry.\<close>

definition drift_mode :: "addr \<Rightarrow> unit prog" where
  "drift_mode context =
     hbind (read_ctx context) (\<lambda>c.
     hbind (read_steps (c_session_history c)) (\<lambda>hist.
       if length hist > 5 then
         hbind (new_cell (Steps (Summary (summary_text (take (length hist - 3) hist))
                                 # slice_last 3 hist))) (\<lambda>sa.
           set_ctx context (\<lambda>c. c\<lparr>c_session_history := sa\<rparr>))
       else hreturn ()))"

definition truncation_marker :: string where
  "truncation_marker = [CHR 0x0A] @ ''... [content truncated] ...'' @ [CHR 0x0A]"

definition truncate_content :: "string \<Rightarrow> string" where
  "truncate_content text =
     (if text \<noteq> [] \<and> length text > 2000
      then take 1000 text @ truncation_marker @ drop (length text - 1000) text
      else text)"

definition truncate_files :: "addr \<Rightarrow> unit prog" where
  "truncate_files context =
     hbind (read_ctx context) (\<lambda>c.
     hbind (read_kb (c_knowledge_base c)) (\<lambda>kb.
       modify_files (k_files_read kb) (map (\<lambda>kv. (fst kv, truncate_content (snd kv))))))"

text \<open>\<open>notes.join('\n\n')\<close>: \<open>null\<close> is printed as the empty text.\<close>

definition join_notes :: "json list \<Rightarrow> string" where
  "join_notes notes =
     intercalate [CHR 0x0A, CHR 0x0A] (map (\<lambda>x. if x = JNull then [] else property_key x) notes)"

definition consolidate_notes :: "addr \<Rightarrow> unit prog" where
  "consolidate_notes context =
     hbind (read_ctx context) (\<lambda>c.
     hbind (read_kb (c_knowledge_base c)) (\<lambda>kb.
     hbind (read_notes (k_error_analysis_notes kb)) (\<lambda>notes.
       if length notes > 3 then
         hbind (new_cell (Notes
                  [JStr (''Consolidated analysis: '' @ take 1500 (join_notes notes) @
                         (if length (join_notes notes) > 1500 then ''...'' else []))])) (\<lambda>na.
         hbind (read_ctx context) (\<lambda>c.
           set_kb (c_knowledge_base c) (\<lambda>kc. kc\<lparr>k_error_analysis_notes := na\<rparr>)))
       else hreturn ())))"

definition cap_progression :: "addr \<Rightarrow> unit prog" where
  "cap_progression context =
     hbind (read_ctx context) (\<lambda>c.
       case c_error_progression c of
         None \<Rightarrow> hreturn ()
       | Some pa \<Rightarrow>
           hbind (read_progressions pa) (\<lambda>progs.
             if length progs > 10 then
               hbind (new_cell (Progressions (slice_last 10 progs))) (\<lambda>na.
                 set_ctx context (\<lambda>c. c\<lparr>c_error_progression := Some na\<rparr>))
             else hreturn ()))"

definition tool_descriptor :: "obj \<Rightarrow> obj" where
  "tool_descriptor tool =
     concat (map (\<lambda>key. case map_of tool key of None \<Rightarrow> [] | Some v \<Rightarrow> [(key, v)])
                 [''name'', ''description'', ''parameters''])"

definition map_tools :: "addr \<Rightarrow> unit prog" where
  "map_tools context =
     hbind (read_ctx context) (\<lambda>c.
     hbind (read_tools (c_available_tools c)) (\<lambda>tools.
     hbind (new_cell (Tools (map tool_descriptor tools))) (\<lambda>ta.
       set_ctx context (\<lambda>c. c\<lparr>c_available_tools := ta\<rparr>))))"

text \<open>The function: it returns the address of its working copy.\<close>

definition optimizeAgentContext :: "addr \<Rightarrow> addr prog" where
  "optimizeAgentContext agentContext =
     hbind (deep_clone agentContext) (\<lambda>context.
     hbind (read_ctx context) (\<lambda>c.
     hbind (case c_current_blocking_error c of
              Some blocking \<Rightarrow> focus_mode context blocking
            | None \<Rightarrow> drift_mode context) (\<lambda>_.
     hbind (truncate_files context) (\<lambda>_.
     hbind (consolidate_notes context) (\<lambda>_.
     hbind (cap_progression context) (\<lambda>_.
     hbind (map_tools context) (\<lambda>_.
       hreturn context)))))))"

subsection \<open>Frames\<close>

text \<open>
  The references an object holds; a store is closed from \<open>n\<close> on when no object at an
  address from \<open>n\<close> on refers to an address below \<open>n\<close>; a statement keeps the store below \<open>n\<close>
  when, run on such a store, it leaves the objects below \<open>n\<close> as they are, keeps the store
  closed from \<open>n\<close> on, and returns only values that satisfy \<open>Q\<close>.
\<close>

definition cell_refs :: "cell \<Rightarrow> addr list" where
  "cell_refs c =
     (case c of
        Ctx x \<Rightarrow> [c_session_history x, c_knowledge_base x, c_recent_actions x, c_available_tools x]
                 @ (case c_error_progression x of None \<Rightarrow> [] | Some a \<Rightarrow> [a])
      | Kb kc \<Rightarrow> [k_files_read kc, k_error_analysis_notes kc]
      | _ \<Rightarrow> [])"

definition closed_cell :: "nat \<Rightarrow> cell \<Rightarrow> bool" where
  "closed_cell n c = list_all (\<lambda>r. n \<le> r) (cell_refs c)"

definition closed_from :: "nat \<Rightarrow> store \<Rightarrow> bool" where
  "closed_from n h = list_all (closed_cell n) (drop n h)"

definition keeps :: "nat \<Rightarrow> ('a \<Rightarrow> bool) \<Rightarrow> 'a prog \<Rightarrow> bool" where
  "keeps n Q p =
     (\<forall>h. n \<le> length h \<and> closed_from n h \<longrightarrow>
        (case p h of (r, h') \<Rightarrow>
           take n h' = take n h \<and> n \<le> length h' \<and> closed_from n h' \<and>
           (case r of Returns x \<Rightarrow> Q x | Throws m \<Rightarrow> True)))"

subsection \<open>A sample store\<close>

text \<open>
  A context with a blocking error in \<open>app.py\<close>, six steps, and two files read, of which
  \<open>README.md\<close> has nothing to do with the error. The context object is at address 7.
\<close>

definition ex_blocking :: error_info where
  "ex_blocking =
     (parsed_error ''KeyError'' ''customer_id'' ''KeyError: customer_id'' [''app.py''] [42] ''t0'')
       \<lparr>first_seen_step := Some 0, status_e := Some ''active''\<rparr>"

definition ex_store :: store where
  "ex_store =
     [Steps (map (\<lambda>n. Plain (error_step n)) [1, 2, 3, 4, 5, 6]),
      Files [(''src/app.py'', ''x = 1''), (''README.md'', ''hello'')],
      Notes [],
      Kb \<lparr>k_files_read = 1, k_error_analysis_notes = 2, k_other = []\<rparr>,
      Recents [],
      Progressions [],
      Tools [[(''name'', JStr ''read_file_content''), (''handler'', JStr ''internal'')]],
      Ctx \<lparr>c_current_blocking_error = Some ex_blocking, c_session_history = 0,
           c_knowledge_base = 3, c_recent_actions = 4, c_error_progression = Some 5,
           c_available_tools = 6, c_other = []\<rparr>]"

section \<open>Properties of the hybrid retrieval core\<close>

subsection \<open>Size of the result of hybridSearch\<close>

lemma length_slice0: "0 \<le> n \<Longrightarrow> int (length (slice0 n xs)) \<le> n"
  by (simp add: slice0_def)

lemma ex_hybridSearch_eval:
  "hybridSearch ex_generateEmbedding ex_searchIndex ''q'' ex_vector_index ex_bm25_index ex_options
     = Inr [\<lparr>id_f = ''a.js#1'', metadata_f = None, bm25Score = 1, vectorScore = 9 / 10,
              combinedScore = 93 / 100\<rparr>,
            \<lparr>id_f = ''b.js#1'', metadata_f = None, bm25Score = 0, vectorScore = 8 / 10,
              combinedScore = 56 / 100\<rparr>]"
  by (simp add: hybridSearch_def ex_generateEmbedding_def ex_searchIndex_def ex_vector_index_def
      ex_bm25_index_def ex_options_def ex_doc_def Let_def or_zero_def slice0_def mergeResults_def
      combinedScores_def process_bm25_def process_vector_def map_modify_def map_set_fresh_def
      map_has_def combine_def DEFAULT_BM25_WEIGHT_def DEFAULT_VECTOR_WEIGHT_def)

text \<open>
  Claim C3, as stated, fails: with \<open>k = 2\<close>, a vector index of size 2 and a BM25 index of
  size 1, hybrid search returns 2 results, more than \<open>min(2, 2, 1) = 1\<close>.
\<close>

theorem hybridSearch_min_bound_counterexample:
  "k ex_options = Some 2 \<and> or_zero (size_v ex_vector_index) = 2 \<and>
   or_zero (documentCount ex_bm25_index) = 1 \<and>
   map_sum id length
     (hybridSearch ex_generateEmbedding ex_searchIndex ''q'' ex_vector_index ex_bm25_index ex_options)
     = Inr 2 \<and>
   \<not> (2::int) \<le> min 2 (min 2 1)"
  by (simp add: ex_hybridSearch_eval)
    (simp add: ex_options_def ex_vector_index_def ex_bm25_index_def or_zero_def)

text \<open>
  Claim C3, amended: hybrid search invoked with \<open>k = N\<close>, \<open>N \<ge> 0\<close>, returns (when no
  search throws) a list of at most \<open>min(N, max(|vector_index|, |bm25_index|))\<close> results:
  the clamp uses the larger of the two index sizes.
\<close>

theorem hybridSearch_length_bound:
  assumes "k opts = Some N" and "0 \<le> N"
    and "hybridSearch ge si q vi bi opts = Inr rs"
  shows "int (length rs) \<le> min N (max (or_zero (size_v vi)) (or_zero (documentCount bi)))"
proof -
  have nonneg: "0 \<le> min N (max (or_zero (size_v vi)) (or_zero (documentCount bi)))"
    using assms(2) by (auto simp: or_zero_def split: option.splits)
  from assms(3) obtain ms
    where "rs = slice0 (min N (max (or_zero (size_v vi)) (or_zero (documentCount bi)))) ms"
    by (auto simp: hybridSearch_def Let_def assms(1) split: sum.splits)
  then show ?thesis using length_slice0 [OF nonneg] by simp
qed

theorem hybridSearch_length_bound_witness:
  "k ex_options = Some 2 \<and> (0::int) \<le> 2 \<and>
   (\<exists>rs. hybridSearch ex_generateEmbedding ex_searchIndex ''q'' ex_vector_index ex_bm25_index
            ex_options = Inr rs \<and>
         int (length rs) \<le> min 2 (max (or_zero (size_v ex_vector_index))
                                     (or_zero (documentCount ex_bm25_index))))"
proof -
  have h1: "k ex_options = Some 2" by (simp add: ex_options_def)
  have h2: "(0::int) \<le> 2" by simp
  show ?thesis
    using h1 h2 hybridSearch_length_bound [OF h1 h2 ex_hybridSearch_eval] ex_hybridSearch_eval
    by blast
qed

subsection \<open>Scaling the weights\<close>



subsection \<open>Order of ties in mergeResults\<close>

lemma ids_map_modify:
  "(\<And>e. id_f (f e) = id_f e) \<Longrightarrow> map id_f (map_modify i f m) = map id_f m"
  by (simp add: map_modify_def)

lemma ids_map_set_fresh: "map id_f (map_set_fresh i md m) = add_new (map id_f m) i"
  by (simp add: map_set_fresh_def map_has_def add_new_def)

lemma ids_process_bm25: "map id_f (process_bm25 m r) = add_new (map id_f m) (id_r r)"
  unfolding process_bm25_def by (subst ids_map_modify) (simp_all add: ids_map_set_fresh)

lemma ids_process_vector: "map id_f (process_vector m r) = add_new (map id_f m) (id_r r)"
  unfolding process_vector_def by (subst ids_map_modify) (simp_all add: ids_map_set_fresh)

lemma ids_foldl_bm25:
  "map id_f (foldl process_bm25 m rs) = foldl add_new (map id_f m) (map id_r rs)"
  by (induction rs arbitrary: m) (simp_all add: ids_process_bm25)

lemma ids_foldl_vector:
  "map id_f (foldl process_vector m rs) = foldl add_new (map id_f m) (map id_r rs)"
  by (induction rs arbitrary: m) (simp_all add: ids_process_vector)

lemma set_foldl_add_new: "set (foldl add_new acc xs) = set acc \<union> set xs"
  by (induction xs arbitrary: acc) (auto simp: add_new_def)

lemma foldl_add_new: "foldl add_new [] xs = first_occurrences xs"
proof (induction xs rule: rev_induct)
  case Nil
  show ?case by (simp add: first_occurrences_def)
next
  case (snoc x xs)
  have "set (foldl add_new [] xs) = set xs" by (simp add: set_foldl_add_new)
  with snoc show ?case by (simp add: add_new_def first_occurrences_def)
qed

lemma ids_combine: "map id_f (map (combine bw vw) m) = map id_f m"
  by (simp add: combine_def)

lemma ids_combinedScores:
  "map id_f (combinedScores b v bw vw) = first_occurrences (map id_r b @ map id_r v)"
proof -
  have "map id_f (combinedScores b v bw vw)
      = map id_f (foldl process_vector (foldl process_bm25 [] b) v)"
    unfolding combinedScores_def by (rule ids_combine)
  also have "\<dots> = foldl add_new (foldl add_new [] (map id_r b)) (map id_r v)"
    by (simp add: ids_foldl_vector ids_foldl_bm25)
  also have "\<dots> = foldl add_new [] (map id_r b @ map id_r v)" by simp
  finally show ?thesis by (simp only: foldl_add_new)
qed

text \<open>
  Claim C8, as stated, fails: the vector search returns \<open>B\<close> before \<open>A\<close>, both documents get
  the combined score 1, and the merged output lists \<open>A\<close> before \<open>B\<close>, because \<open>A\<close> entered
  the map first, from the BM25 ranking.
\<close>

theorem mergeResults_vector_order_counterexample:
  "map id_r tie_vector = [''B'', ''A''] \<and>
   map combinedScore (mergeResults tie_bm25 tie_vector (1 / 2) (1 / 2)) = [1, 1] \<and>
   map id_f (mergeResults tie_bm25 tie_vector (1 / 2) (1 / 2)) = [''A'', ''B'']"
  by (simp add: tie_bm25_def tie_vector_def ex_doc_def mergeResults_def
      combinedScores_def process_bm25_def process_vector_def map_modify_def map_set_fresh_def
      map_has_def combine_def)

text \<open>
  Claim C8, amended: documents with identical combined scores keep, in the merged output,
  the order in which they entered the \<open>combinedScores\<close> map; that order is the order of
  first occurrence in the BM25 ranking followed by the vector ranking (so documents found
  only by the vector search keep the vector order among themselves, after every BM25 hit).
\<close>

theorem mergeResults_tie_order:
  "filter (\<lambda>e. combinedScore e = s) (mergeResults b v bw vw)
     = filter (\<lambda>e. combinedScore e = s) (combinedScores b v bw vw)
   \<and> map id_f (combinedScores b v bw vw) = first_occurrences (map id_r b @ map id_r v)"
proof -
  have "filter (\<lambda>e. - combinedScore e = - s) (mergeResults b v bw vw)
     = filter (\<lambda>e. - combinedScore e = - s) (combinedScores b v bw vw)"
    unfolding mergeResults_def by (rule sort_key_stable)
  then show ?thesis by (simp add: ids_combinedScores)
qed

subsection \<open>The root-cause heuristic\<close>








section \<open>Properties of the error evolution engine\<close>

lemma parse_value_error_1:
  "parseErrorFromOutput now (Some (JStr value_error_1)) =
     Some (parsed_error ''ValueError'' ''invalid literal'' value_error_1 [] [] now)"
  by (simp add: parseErrorFromOutput_def value_error_1_def errorPatterns_def starts_with_def
      is_line_terminator_def trim_def is_space_def extractFileReferences_def
      extractLineNumbers_def first_occurrences_def)

lemma parse_value_error_2:
  "parseErrorFromOutput now (Some (JStr value_error_2)) =
     Some (parsed_error ''ValueError'' ''math domain error'' value_error_2 [] [] now)"
  by (simp add: parseErrorFromOutput_def value_error_2_def errorPatterns_def starts_with_def
      is_line_terminator_def trim_def is_space_def extractFileReferences_def
      extractLineNumbers_def first_occurrences_def)

lemma stale_context_error:
  "current_blocking_error stale_context =
     Some ((parsed_error ''ValueError'' ''invalid literal'' value_error_1 [] [] ''t0'')
             \<lparr>first_seen_step := Some 0, status_e := Some ''active''\<rparr>)
   \<and> solved_issues stale_context = []"
  by (simp add: stale_context_def updateErrorState_def parse_value_error_1 Let_def
      initial_context_def compareErrors_def)

text \<open>
  The two transitions of \<open>updateErrorState\<close> that claim C1 describes correctly: an output
  without error resolves the previous error at the current step, and an error that
  \<open>compareErrors\<close> classifies as new or as a progression replaces it.
\<close>

lemma updateErrorState_no_error:
  assumes "parseErrorFromOutput now out = None" and "current_blocking_error c = Some p"
  shows "solved_issues (updateErrorState now c out s) = solved_issues c @ [resolved p s now]
       \<and> current_blocking_error (updateErrorState now c out s) = None"
  using assms by (simp add: updateErrorState_def Let_def)

lemma updateErrorState_new_error:
  assumes "parseErrorFromOutput now out = Some e"
    and "is_new_error (compareErrors (current_blocking_error c) (Some e))
         \<or> is_progression (compareErrors (current_blocking_error c) (Some e))"
  shows "current_blocking_error (updateErrorState now c out s)
           = Some (e\<lparr>first_seen_step := Some s, status_e := Some ''active''\<rparr>)
       \<and> solved_issues (updateErrorState now c out s)
           = solved_issues c @ (case current_blocking_error c of
                                  None \<Rightarrow> [] | Some p \<Rightarrow> [resolved p (s - 1) now])"
  using assms by (auto simp: updateErrorState_def Let_def split: option.splits)

text \<open>
  Claim C1 at a failing input. The blocking error is \<open>ValueError: invalid literal\<close>; the
  next output has the error \<open>ValueError: math domain error\<close>, which differs from it in its
  message only. \<open>compareErrors\<close> sets none of its three flags for a pair of the same type
  with different messages, so \<open>updateErrorState\<close> takes no branch: the parsed error is not
  installed, the stale error stays the current blocking error, and nothing is moved to
  \<open>solved_issues\<close>.
\<close>

theorem updateErrorState_stale_error:
  "map_option message_e (current_blocking_error stale_context) = Some ''invalid literal'' \<and>
   map_option message_e (parseErrorFromOutput ''t1'' (Some (JStr value_error_2)))
     = Some ''math domain error'' \<and>
   resolution_status (compareErrors (current_blocking_error stale_context)
                        (parseErrorFromOutput ''t1'' (Some (JStr value_error_2)))) = ''progressed'' \<and>
   current_blocking_error (updateErrorState ''t1'' stale_context (Some (JStr value_error_2)) 1)
     = current_blocking_error stale_context \<and>
   solved_issues (updateErrorState ''t1'' stale_context (Some (JStr value_error_2)) 1) = []"
  using stale_context_error
  by (simp add: updateErrorState_def parse_value_error_2 Let_def compareErrors_def parsed_error_def)

section \<open>Properties of the orchestrator\<close>

subsection \<open>Termination check\<close>




subsection \<open>Deduplication\<close>

lemma failing_planner_loop:
  "agent_loop failing_planner_world 0 initial_context [] =
     (initial_context\<lparr>session_history := [recovery_step 1, recovery_step 2],
                       recent_actions := [recovery_recent 1, recovery_recent 2]\<rparr>,
      [(1, ''ask_user_for_clarification'', Some (recovery_question ''no JSON in response'')),
       (2, ''ask_user_for_clarification'', Some (recovery_question ''no JSON in response'')),
       (3, ''finish_debugging'', Some [(''final_status'', JStr ''cannot_resolve'')])])"
  by code_simp

text \<open>
  Claim C2 at a failing input: a session in which the planner's answer cannot be parsed
  at steps 1 and 2. Both steps take the recovery branch, which asks the user the same
  question. Steps 1 and 2 of the session history carry the same action, and the two
  entries of \<open>recent_actions\<close> the same signature; yet step 2 was dispatched
  (\<open>executeAgentTool\<close> ran the tool again) and its result has status \<open>success\<close>, not
  \<open>skipped\<close>. The recovery branch records its \<open>fallbackAction\<close>, whose parameters are under
  \<open>tool_parameters\<close>, while \<open>updateAgentContext\<close> computes the signature from \<open>parameters\<close>:
  the recorded signature never equals the one the gate computes.
\<close>

theorem recovery_steps_not_skipped:
  "map step_no (session_history (fst (agent_loop failing_planner_world 0 initial_context []))) = [1, 2] \<and>
   map action_taken (session_history (fst (agent_loop failing_planner_world 0 initial_context [])))
     = [fallbackAction ''no JSON in response'', fallbackAction ''no JSON in response''] \<and>
   map signature (recent_actions (fst (agent_loop failing_planner_world 0 initial_context [])))
     = [''ask_user_for_clarification:{}'', ''ask_user_for_clarification:{}''] \<and>
   map (\<lambda>s. get_prop (result s) ''status'')
       (session_history (fst (agent_loop failing_planner_world 0 initial_context [])))
     = [Some (JStr ''success''), Some (JStr ''success'')] \<and>
   take 2 (snd (agent_loop failing_planner_world 0 initial_context []))
     = [(1, ''ask_user_for_clarification'', Some (recovery_question ''no JSON in response'')),
        (2, ''ask_user_for_clarification'', Some (recovery_question ''no JSON in response''))]"
  by (simp add: failing_planner_loop)
    (simp add: recovery_step_def recovery_recent_def get_prop_def)

subsection \<open>The tool dispatcher\<close>






subsection \<open>read_file_content\<close>



lemma missing_read_eval:
  "read_file_content ex_env (full_read ''app.py'') initial_context =
     [(''status'', JStr ''error''), (''message'', JStr ''File not found: app.py'')]"
  by code_simp




subsection \<open>Deduplication of the steps the planner chose\<close>

text \<open>The last ten steps of a history that grows by one step.\<close>

lemma slice_last_snoc:
  "slice_last 10 (xs @ [x]) = (if length xs < 10 then xs @ [x] else tl (slice_last 10 xs) @ [x])"
proof (cases "length xs < 10")
  case True
  then show ?thesis by (simp add: slice_last_def)
next
  case False
  then have "length xs - 9 = Suc (length xs - 10)" by arith
  then show ?thesis using False by (simp add: slice_last_def drop_Suc tl_drop)
qed

lemma slice_last_short: "length xs \<le> 10 \<Longrightarrow> slice_last 10 xs = xs"
  by (simp add: slice_last_def)

lemma slice_last_min: "length (slice_last n xs) = min n (length xs)"
  by (simp add: slice_last_def)

lemma mirrors_push:
  assumes m: "list_all2 (recorded cwd) (slice_last 10 hist) recents" and r: "recorded cwd s e"
  shows "list_all2 (recorded cwd) (slice_last 10 (hist @ [s]))
           (if length (recents @ [e]) > 10 then slice_last 10 (recents @ [e]) else recents @ [e])"
proof -
  from m have len: "length recents = min 10 (length hist)"
    by (metis slice_last_min list_all2_lengthD)
  show ?thesis
  proof (cases "length hist < 10")
    case True
    then have "slice_last 10 hist = hist" and "length recents < 10" using len
      by (simp_all add: slice_last_short)
    then show ?thesis using m r True by (simp add: slice_last_snoc list_all2_appendI)
  next
    case False
    then have l10: "length recents = 10" using len by simp
    then have s: "slice_last 10 recents = recents" by (simp add: slice_last_short)
    have "list_all2 (recorded cwd) (tl (slice_last 10 hist)) (tl recents)"
      using m by (cases "slice_last 10 hist"; cases recents) auto
    then have "list_all2 (recorded cwd) (tl (slice_last 10 hist) @ [s]) (tl recents @ [e])"
      using r by (simp add: list_all2_appendI)
    then show ?thesis using False l10 s by (simp add: slice_last_snoc)
  qed
qed

lemma mirrors_entry:
  assumes m: "list_all2 (recorded cwd) (slice_last 10 hist) recents"
    and i: "i < length hist" and w: "length hist \<le> i + 10"
  shows "\<exists>e\<in>set recents. recorded cwd (hist ! i) e"
proof -
  let ?d = "length hist - 10"
  have "slice_last 10 hist ! (i - ?d) = hist ! i"
    using i w by (simp add: slice_last_def)
  moreover have "i - ?d < length (slice_last 10 hist)"
    using i w by (simp add: slice_last_def)
  ultimately show ?thesis using m
    by (metis list_all2_conv_all_nth nth_mem)
qed


lemma numbered_nth:
  assumes "map step_no hist = map int [1..<Suc (length hist)]" and "i < length hist"
  shows "step_no (hist ! i) = int i + 1"
proof -
  have "step_no (hist ! i) = map step_no hist ! i" using assms(2) by simp
  also have "\<dots> = map int [1..<Suc (length hist)] ! i" by (simp only: assms(1))
  also have "\<dots> = int i + 1" using assms(2) by (simp del: upt_Suc)
  finally show ?thesis .
qed

text \<open>
  The dispatcher and the error state leave the history and \<open>recent_actions\<close> alone; a
  dispatcher that returns has computed the signature of its request.
\<close>

lemma executeAgentTool_frame:
  "session_history (snd (executeAgentTool tf cwd t ps c)) = session_history c \<and>
   recent_actions (snd (executeAgentTool tf cwd t ps c)) = recent_actions c"
  by (simp add: executeAgentTool_def split: outcome.splits prod.splits option.splits)

lemma executeAgentTool_signature:
  assumes "fst (executeAgentTool tf cwd t ps c) = Returns r"
  shows "\<exists>sg. createActionSignature cwd t ps = Returns sg"
  using assms
  by (cases "createActionSignature cwd t ps") (simp_all add: executeAgentTool_def shouldSkipAction_def)

lemma updateErrorState_frame:
  "session_history (updateErrorState now c out s) = session_history c \<and>
   recent_actions (updateErrorState now c out s) = recent_actions c"
  by (simp add: updateErrorState_def Let_def split: option.splits)

lemma signature_undefined_parameters:
  "createActionSignature cwd name None = Returns (name @ '':{}'')"
  by (simp add: createActionSignature_def normalize_path_def)

text \<open>
  When the signature of the step can be computed, \<open>updateAgentContext\<close> appends the step
  and an entry that records it, and keeps the last ten entries.
\<close>

lemma updateAgentContext_pushes:
  assumes "step_signature cwd \<lparr>step_no = n, thought = th, action_taken = a, result = r\<rparr> = Returns sg"
  defines "e \<equiv> \<lparr>signature = sg, step_ra = n, tool_ra = str_or (tool_to_use a) (tool_used a),
                 parameters_ra = parameters a, result_ra = r\<rparr>"
  shows "\<exists>c'. updateAgentContext cwd c n th a r = Updated c' \<and>
           session_history c' = session_history c @ [\<lparr>step_no = n, thought = th, action_taken = a, result = r\<rparr>] \<and>
           recent_actions c' = (if length (recent_actions c @ [e]) > 10
                                then slice_last 10 (recent_actions c @ [e]) else recent_actions c @ [e]) \<and>
           recorded cwd \<lparr>step_no = n, thought = th, action_taken = a, result = r\<rparr> e"
  using assms(1)
  by (simp add: updateAgentContext_def step_signature_def Let_def recorded_def e_def)

text \<open>
  The gate: a request whose signature is recorded for one of the last three steps is
  answered with the result of a skipped duplicate.
\<close>

lemma skipped_result_shape:
  assumes "find p (recent_actions c) = Some e"
  shows "skipped_as_duplicate
           (skipped_result \<lparr>should_skip = True, duplicate_step = Some (step_ra e), reason = rs\<rparr> c)"
proof -
  have "p e" and "e \<in> set (recent_actions c)"
    using assms by (auto simp: find_Some_iff)
  then have "find (\<lambda>a. step_ra a = step_ra e) (recent_actions c) \<noteq> None"
    by (auto simp: find_None_iff)
  then obtain e' where "find (\<lambda>a. step_ra a = step_ra e) (recent_actions c) = Some e'" by auto
  then show ?thesis
    by (simp add: skipped_as_duplicate_def skipped_result_def get_prop_def)
qed

lemma gate_skips:
  assumes sg: "createActionSignature cwd t ps = Returns sg"
    and e: "e \<in> set (recent_actions c)" and s: "signature e = sg"
    and w: "step_ra e > int (length (session_history c)) - 3"
    and x: "fst (executeAgentTool tf cwd t ps c) = Returns r"
  shows "skipped_as_duplicate r"
proof -
  let ?p = "\<lambda>a. signature a = sg \<and> step_ra a > int (length (session_history c)) - 3"
  have "find ?p (recent_actions c) \<noteq> None" using e s w by (auto simp: find_None_iff)
  then obtain d where d: "find ?p (recent_actions c) = Some d" by auto
  with sg x have "r = skipped_result \<lparr>should_skip = True, duplicate_step = Some (step_ra d),
      reason = Some (''Identical action performed in step '' @ show_int (step_ra d))\<rparr> c"
    by (simp add: executeAgentTool_def shouldSkipAction_def Let_def)
  then show ?thesis using skipped_result_shape [OF d] by simp
qed

text \<open>Appending a recorded step keeps the two properties.\<close>

lemma mirrors_cong:
  assumes "mirrors cwd c" and "session_history c' = session_history c"
    and "recent_actions c' = recent_actions c"
  shows "mirrors cwd c'"
  using assms by (simp add: mirrors_def)

lemma push_preserves:
  assumes m: "mirrors cwd c" and d: "deduplicated cwd (session_history c)"
    and h: "session_history c' = session_history c @ [s]"
    and r: "recent_actions c' = (if length (recent_actions c @ [e]) > 10
                                 then slice_last 10 (recent_actions c @ [e]) else recent_actions c @ [e])"
    and e: "recorded cwd s e" and n: "step_no s = int (length (session_history c)) + 1"
    and new: "\<And>i sg. i < length (session_history c) \<Longrightarrow> length (session_history c) \<le> i + 3 \<Longrightarrow>
                ordinary s \<Longrightarrow> step_signature cwd (session_history c ! i) = Returns sg \<Longrightarrow>
                step_signature cwd s = Returns sg \<Longrightarrow> skipped_as_duplicate (result s)"
  shows "mirrors cwd c' \<and> deduplicated cwd (session_history c')"
proof
  have "list_all2 (recorded cwd) (slice_last 10 (session_history c')) (recent_actions c')"
    unfolding h r using m e by (intro mirrors_push) (simp_all add: mirrors_def)
  moreover have "map step_no (session_history c') = map int [1..<Suc (length (session_history c'))]"
    using m n by (simp add: h mirrors_def)
  ultimately show "mirrors cwd c'" by (simp add: mirrors_def)
next
  let ?h = "session_history c"
  show "deduplicated cwd (session_history c')"
    unfolding deduplicated_def h
  proof (intro allI impI, elim conjE)
    fix i j sg
    assume ij: "i < j" and j: "j < length (?h @ [s])" and w: "j \<le> i + 3"
      and o: "ordinary ((?h @ [s]) ! j)"
      and si: "step_signature cwd ((?h @ [s]) ! i) = Returns sg"
      and sj: "step_signature cwd ((?h @ [s]) ! j) = Returns sg"
    show "skipped_as_duplicate (result ((?h @ [s]) ! j))"
    proof (cases "j < length ?h")
      case True
      then have "(?h @ [s]) ! j = ?h ! j" and "(?h @ [s]) ! i = ?h ! i"
        using ij by (simp_all add: nth_append)
      then show ?thesis using d ij True w o si sj unfolding deduplicated_def by metis
    next
      case False
      then have jl: "j = length ?h" using j by simp
      then have "(?h @ [s]) ! j = s" and "(?h @ [s]) ! i = ?h ! i"
        using ij by (simp_all add: nth_append)
      then show ?thesis using new [of i sg] ij jl w o si sj by simp
    qed
  qed
qed

text \<open>
  One step of the loop, through the recovery branch or not, keeps the two properties; a
  step after which the loop goes on has added one step to the history.
\<close>

lemma recover_invariant:
  assumes m: "mirrors cwd c" and d: "deduplicated cwd (session_history c)"
    and n: "n = int (length (session_history c)) + 1" and w: "process_cwd w = cwd"
    and st: "recover w n c msg = (f, c', calls)"
  shows "mirrors cwd c' \<and> deduplicated cwd (session_history c') \<and>
         (f = Continue \<longrightarrow> length (session_history c') = Suc (length (session_history c)))"
proof -
  let ?x = "executeAgentTool (toolFunctions w n) cwd ''ask_user_for_clarification''
              (Some (recovery_question msg)) c"
  obtain x c1 where x: "?x = (x, c1)" by force
  have fr: "session_history c1 = session_history c" "recent_actions c1 = recent_actions c"
    using executeAgentTool_frame [of "toolFunctions w n" cwd "''ask_user_for_clarification''"
        "Some (recovery_question msg)" c] x by simp_all
  have m1: "mirrors cwd c1" using m fr by (rule mirrors_cong)
  show ?thesis
  proof (cases x)
    case (Throws m')
    then have "c' = c1" and "f = Break" using st x w by (simp_all add: recover_def)
    then show ?thesis using m1 d fr by simp
  next
    case (Returns g)
    let ?s = "\<lparr>step_no = n, thought = ''Recovery attempt after error: '' @ msg,
               action_taken = fallbackAction msg, result = g\<rparr>"
    have sig: "step_signature cwd ?s = Returns (''ask_user_for_clarification'' @ '':{}'')"
      by (simp add: step_signature_def fallbackAction_def str_or_def template_str_def
          signature_undefined_parameters)
    from updateAgentContext_pushes [OF sig, of c1] obtain c2 e where
      u: "updateAgentContext cwd c1 n (''Recovery attempt after error: '' @ msg) (fallbackAction msg) g
            = Updated c2"
      and h: "session_history c2 = session_history c1 @ [?s]"
      and r: "recent_actions c2 = (if length (recent_actions c1 @ [e]) > 10
                 then slice_last 10 (recent_actions c1 @ [e]) else recent_actions c1 @ [e])"
      and e: "recorded cwd ?s e" by blast
    have c': "c' = c2" and f: "f = Continue" using st x w Returns u by (simp_all add: recover_def)
    have no: "\<not> ordinary ?s" by (simp add: ordinary_def fallbackAction_def)
    have "mirrors cwd c2 \<and> deduplicated cwd (session_history c2)"
    proof (rule push_preserves [OF m1 _ h r e])
      show "deduplicated cwd (session_history c1)" using d fr by simp
      show "step_no ?s = int (length (session_history c1)) + 1" using n fr by simp
    qed (use no in simp)
    then show ?thesis using c' h fr by simp
  qed
qed

lemma agent_step_invariant:
  assumes m: "mirrors cwd c" and d: "deduplicated cwd (session_history c)"
    and n: "n = int (length (session_history c)) + 1" and w: "process_cwd w = cwd"
    and st: "agent_step w n c = (f, c', calls)"
  shows "mirrors cwd c' \<and> deduplicated cwd (session_history c') \<and>
         (f = Continue \<longrightarrow> length (session_history c') = Suc (length (session_history c)))"
proof (cases "determineNextAgentAction w n c")
  case (Throws msg)
  then have "recover w n c msg = (f, c', calls)" using st by (simp add: agent_step_def)
  then show ?thesis by (rule recover_invariant [OF m d n w])
next
  case (Returns a)
  let ?t = "tool_to_use_a a" and ?ps = "tool_parameters_a a"
  obtain x c1 where x: "executeAgentTool (toolFunctions w n) cwd ?t ?ps c = (x, c1)" by force
  have fr: "session_history c1 = session_history c" "recent_actions c1 = recent_actions c"
    using executeAgentTool_frame [of "toolFunctions w n" cwd ?t ?ps c] x by simp_all
  have m1: "mirrors cwd c1" using m fr by (rule mirrors_cong)
  have d1: "deduplicated cwd (session_history c1)" using d fr by simp
  have n1: "n = int (length (session_history c1)) + 1" using n fr by simp
  show ?thesis
  proof (cases x)
    case (Throws msg)
    then obtain cs where "recover w n c1 msg = (f, c', cs)"
      using st Returns x w by (auto simp: agent_step_def Let_def with_call_def split: prod.splits)
    then show ?thesis using recover_invariant [OF m1 d1 n1 w] fr by simp
  next
    case res: (Returns r)
    show ?thesis
    proof (cases "get_prop r ''status'' = Some (JStr ''finished'')")
      case True
      then have "c' = c1" and "f = Break"
        using st Returns x w res by (simp_all add: agent_step_def Let_def)
      then show ?thesis using m1 d1 by simp
    next
      case False
      let ?a = "\<lparr>tool_used = Some ?t, tool_to_use = Some ?t, parameters = ?ps,
                 tool_parameters = None\<rparr>"
      let ?s = "\<lparr>step_no = n, thought = thought_a a, action_taken = ?a, result = r\<rparr>"
      have ss: "step_signature cwd ?s = createActionSignature cwd ?t ?ps"
        by (simp add: step_signature_def str_or_def template_str_def)
      obtain sg where sg: "createActionSignature cwd ?t ?ps = Returns sg"
        using executeAgentTool_signature [of "toolFunctions w n" cwd ?t ?ps c r] x res by auto
      from updateAgentContext_pushes [of cwd n "thought_a a" ?a r sg c1] ss sg obtain c2 e where
        u: "updateAgentContext cwd c1 n (thought_a a) ?a r = Updated c2"
        and h: "session_history c2 = session_history c1 @ [?s]"
        and rr: "recent_actions c2 = (if length (recent_actions c1 @ [e]) > 10
                   then slice_last 10 (recent_actions c1 @ [e]) else recent_actions c1 @ [e])"
        and e: "recorded cwd ?s e" by auto
      have inv2: "mirrors cwd c2 \<and> deduplicated cwd (session_history c2)"
      proof (rule push_preserves [OF m1 d1 h rr e])
        show "step_no ?s = int (length (session_history c1)) + 1" using n1 by simp
      next
        fix i sg'
        assume i: "i < length (session_history c1)" and win: "length (session_history c1) \<le> i + 3"
          and si: "step_signature cwd (session_history c1 ! i) = Returns sg'"
          and sj: "step_signature cwd ?s = Returns sg'"
        have eq: "sg' = sg" using sj ss sg by simp
        have "\<exists>en\<in>set (recent_actions c). recorded cwd (session_history c ! i) en"
          using m i win fr by (intro mirrors_entry) (simp_all add: mirrors_def)
        then obtain en where en: "en \<in> set (recent_actions c)"
          and rec: "recorded cwd (session_history c ! i) en" by auto
        have "step_ra en = int i + 1"
          using rec m i fr by (simp add: recorded_def mirrors_def numbered_nth)
        then have "step_ra en > int (length (session_history c)) - 3" using win fr by simp
        moreover have "signature en = sg" using rec si fr eq by (simp add: recorded_def)
        ultimately have "skipped_as_duplicate r"
          using gate_skips [OF sg en, of "toolFunctions w n" r] x res by simp
        then show "skipped_as_duplicate (result ?s)" by simp
      qed
      let ?c3 = "if ?t = ''run_diagnostic_command'' \<and> truthy_opt (get_prop r ''stderr'')
                 then updateErrorState (clock w n) c2 (get_prop r ''stderr'') n else c2"
      have c': "c' = ?c3"
        using st Returns x w res False u by (simp add: agent_step_def Let_def)
      have fr3c: "session_history ?c3 = session_history c2 \<and> recent_actions ?c3 = recent_actions c2"
      proof (cases "?t = ''run_diagnostic_command'' \<and> truthy_opt (get_prop r ''stderr'')")
        case True
        then show ?thesis by (simp only: if_True updateErrorState_frame simp_thms)
      next
        case False
        then show ?thesis by (simp only: if_False simp_thms)
      qed
      note fr3 = fr3c [THEN conjunct1] fr3c [THEN conjunct2]
      have m3: "mirrors cwd ?c3"
      proof (rule mirrors_cong)
        show "mirrors cwd c2" using inv2 by (rule conjunct1)
      qed (rule fr3)+
      have d3: "deduplicated cwd (session_history ?c3)"
        using inv2 [THEN conjunct2] by (simp only: fr3)
      have "session_history ?c3 = session_history c @ [?s]" by (simp only: fr3 h fr)
      then have "length (session_history ?c3) = Suc (length (session_history c))"
        by (simp only: length_append_singleton)
      with m3 d3 show ?thesis by (simp only: c' simp_thms)
    qed
  qed
qed

text \<open>
  The loop, and a whole session: in the final history of a session that started with an
  empty history and no recent actions, every repetition by the planner of one of the
  three steps before it was skipped. The recovery steps are outside this statement.
\<close>

lemma agent_loop_invariant:
  assumes "mirrors (process_cwd w) c" and "deduplicated (process_cwd w) (session_history c)"
    and "stepCount = int (length (session_history c))"
  shows "mirrors (process_cwd w) (fst (agent_loop w stepCount c calls)) \<and>
         deduplicated (process_cwd w) (session_history (fst (agent_loop w stepCount c calls)))"
  using assms
proof (induction w stepCount c calls rule: agent_loop.induct)
  case (1 w stepCount cx calls)
  show ?case
  proof (cases "stepCount < 20 \<and> \<not> should_terminate (shouldTerminateSession cx)")
    case False
    then have "agent_loop w stepCount cx calls = (cx, calls)"
      by (subst agent_loop.simps) auto
    then show ?thesis using "1.prems" by simp
  next
    case True
    obtain f c cs where st: "agent_step w (stepCount + 1) cx = (f, c, cs)"
      by (cases "agent_step w (stepCount + 1) cx") auto
    have n: "stepCount + 1 = int (length (session_history cx)) + 1" using "1.prems" by simp
    note inv = agent_step_invariant [OF "1.prems"(1,2) n refl st]
    show ?thesis
    proof (cases f)
      case Break
      then have "agent_loop w stepCount cx calls = (c, calls @ cs)"
        using True st by (subst agent_loop.simps) simp
      then show ?thesis using inv by simp
    next
      case Continue
      then have eq: "agent_loop w stepCount cx calls = agent_loop w (stepCount + 1) c (calls @ cs)"
        using True st by (subst agent_loop.simps) simp
      have len: "stepCount + 1 = int (length (session_history c))"
        using inv Continue "1.prems"(3) by simp
      have "mirrors (process_cwd w) (fst (agent_loop w (stepCount + 1) c (calls @ cs))) \<and>
            deduplicated (process_cwd w)
              (session_history (fst (agent_loop w (stepCount + 1) c (calls @ cs))))"
        using True inv
        by (intro "1.IH" [OF _ _ st [symmetric] Continue refl _ _ len]) simp_all
      then show ?thesis by (simp only: eq)
    qed
  qed
qed

lemma mirrors_initially:
  assumes "session_history c = []" and "recent_actions c = []"
  shows "mirrors cwd c \<and> deduplicated cwd (session_history c)"
  using assms by (simp add: mirrors_def deduplicated_def slice_last_def)

lemma debugLoop_deduplicated:
  assumes "session_history c0 = []" and "recent_actions c0 = []"
    and "debugLoop w c0 ok out = Some (c, calls)"
  shows "deduplicated (process_cwd w) (session_history c)"
proof -
  let ?c = "if \<not> ok \<and> out \<noteq> [] then updateErrorState (clock w 0) c0 (Some (JStr out)) 0 else c0"
  have "session_history ?c = [] \<and> recent_actions ?c = []"
  proof (cases "\<not> ok \<and> out \<noteq> []")
    case True
    then show ?thesis using assms(1,2) by (simp only: if_True updateErrorState_frame simp_thms)
  next
    case False
    then show ?thesis using assms(1,2) by (simp only: if_False simp_thms)
  qed
  then have e: "session_history ?c = []" and r: "recent_actions ?c = []"
    by (rule conjunct1, rule conjunct2)
  have z: "0 = int (length (session_history ?c))" unfolding e by simp
  note i = mirrors_initially [OF e r, of "process_cwd w"]
  have "deduplicated (process_cwd w) (session_history (fst (agent_loop w 0 ?c [])))"
    by (rule agent_loop_invariant [OF i [THEN conjunct1] i [THEN conjunct2] z, THEN conjunct2])
  moreover have "agent_loop w 0 ?c [] = (c, calls)"
    using assms(3) by (auto simp: debugLoop_def split: if_splits)
  ultimately show ?thesis by simp
qed

text \<open>
  A session in which the planner asks the same question at steps 1 and 2: step 2 is
  recorded as a skipped duplicate of step 1.
\<close>

lemma repeating_planner_loop:
  "map (\<lambda>s. (step_no s, tool_used (action_taken s), get_prop (result s) ''status'',
              get_prop (result s) ''duplicate_step''))
     (session_history (fst (agent_loop repeating_planner_world 0 initial_context []))) =
     [(1, Some ''ask_user_for_clarification'', Some (JStr ''success''), None),
      (2, Some ''ask_user_for_clarification'', Some (JStr ''skipped''), Some (JNum 1))]"
  by code_simp


section \<open>Properties of the context optimizer\<close>

subsection \<open>Closed stores\<close>

lemma closed_from_iff:
  "closed_from n h = (\<forall>a. n \<le> a \<and> a < length h \<longrightarrow> closed_cell n (h ! a))"
proof
  assume c: "closed_from n h"
  show "\<forall>a. n \<le> a \<and> a < length h \<longrightarrow> closed_cell n (h ! a)"
  proof (intro allI impI)
    fix a assume a: "n \<le> a \<and> a < length h"
    then have "a - n < length (drop n h)" by auto
    with c have "closed_cell n (drop n h ! (a - n))" by (simp add: closed_from_def list_all_length)
    moreover have "drop n h ! (a - n) = h ! a" using a by auto
    ultimately show "closed_cell n (h ! a)" by simp
  qed
next
  assume r: "\<forall>a. n \<le> a \<and> a < length h \<longrightarrow> closed_cell n (h ! a)"
  show "closed_from n h"
    unfolding closed_from_def list_all_length
  proof (intro allI impI)
    fix i assume i: "i < length (drop n h)"
    then have "n + i < length h" by simp
    with r have "closed_cell n (h ! (n + i))" by simp
    moreover have "drop n h ! i = h ! (n + i)" using i by simp
    ultimately show "closed_cell n (drop n h ! i)" by simp
  qed
qed

lemma closed_from_append:
  "n \<le> length h \<Longrightarrow> closed_from n (h @ [c]) = (closed_from n h \<and> closed_cell n c)"
  by (simp add: closed_from_def)

lemma closed_from_update:
  assumes "closed_from n h" and "closed_cell n c"
  shows "closed_from n (h[a := c])"
  unfolding closed_from_iff
proof (intro allI impI)
  fix b assume b: "n \<le> b \<and> b < length (h[a := c])"
  show "closed_cell n (h[a := c] ! b)"
  proof (cases "b = a")
    case True
    then show ?thesis using b assms(2) by simp
  next
    case False
    then have "h[a := c] ! b = h ! b" by simp
    then show ?thesis using b assms(1) by (simp add: closed_from_iff)
  qed
qed

lemma closed_from_nth:
  "closed_from n h \<Longrightarrow> n \<le> a \<Longrightarrow> a < length h \<Longrightarrow> closed_cell n (h ! a)"
  by (simp add: closed_from_iff)

subsection \<open>Statements that keep the store below an address\<close>

lemma keeps_bind:
  assumes "keeps n Q p" and "\<And>x. Q x \<Longrightarrow> keeps n R (f x)"
  shows "keeps n R (hbind p f)"
  unfolding keeps_def
proof (intro allI impI)
  fix h assume h: "n \<le> length h \<and> closed_from n h"
  obtain r h1 where p: "p h = (r, h1)" by (cases "p h")
  from assms(1) h p have 1: "take n h1 = take n h" "n \<le> length h1" "closed_from n h1"
    and q: "case r of Returns x \<Rightarrow> Q x | Throws m \<Rightarrow> True"
    by (auto simp: keeps_def)
  show "case hbind p f h of (r, h') \<Rightarrow>
           take n h' = take n h \<and> n \<le> length h' \<and> closed_from n h' \<and>
           (case r of Returns x \<Rightarrow> R x | Throws m \<Rightarrow> True)"
  proof (cases r)
    case (Throws m)
    then show ?thesis using p 1 by (simp add: hbind_def)
  next
    case (Returns x)
    with q have "Q x" by simp
    obtain r2 h2 where f: "f x h1 = (r2, h2)" by (cases "f x h1")
    have "keeps n R (f x)" by (rule assms(2) [OF \<open>Q x\<close>])
    with 1(2,3) f have "take n h2 = take n h1 \<and> n \<le> length h2 \<and> closed_from n h2 \<and>
           (case r2 of Returns x \<Rightarrow> R x | Throws m \<Rightarrow> True)"
      unfolding keeps_def by fastforce
    then show ?thesis using p Returns 1(1) f by (simp add: hbind_def)
  qed
qed

lemma keeps_return: "Q x \<Longrightarrow> keeps n Q (hreturn x)"
  by (simp add: keeps_def hreturn_def)

lemma keeps_weaken:
  assumes "keeps n Q p" and "\<And>x. Q x \<Longrightarrow> R x"
  shows "keeps n R p"
proof -
  have "keeps n R (hbind p hreturn)"
    by (rule keeps_bind [OF assms(1)]) (rule keeps_return, rule assms(2))
  moreover have "hbind p hreturn = p"
    by (rule ext) (simp add: hbind_def hreturn_def split: prod.splits outcome.splits)
  ultimately show ?thesis by simp
qed

lemma keeps_new_cell: "closed_cell n c \<Longrightarrow> keeps n (\<lambda>a. n \<le> a) (new_cell c)"
  by (simp add: keeps_def new_cell_def closed_from_append)

lemma keeps_write_cell: "n \<le> a \<Longrightarrow> closed_cell n c \<Longrightarrow> keeps n (\<lambda>_. True) (write_cell a c)"
  by (simp add: keeps_def write_cell_def closed_from_update)

lemma keeps_read_ctx: "keeps n (\<lambda>_. True) (read_ctx a)"
  by (simp add: keeps_def read_ctx_def split: option.splits cell.splits)

lemma keeps_read_kb: "keeps n (\<lambda>_. True) (read_kb a)"
  by (simp add: keeps_def read_kb_def split: option.splits cell.splits)

lemma keeps_read_files: "keeps n (\<lambda>_. True) (read_files a)"
  by (simp add: keeps_def read_files_def split: option.splits cell.splits)

lemma keeps_read_steps: "keeps n (\<lambda>_. True) (read_steps a)"
  by (simp add: keeps_def read_steps_def split: option.splits cell.splits)

lemma keeps_read_recents: "keeps n (\<lambda>_. True) (read_recents a)"
  by (simp add: keeps_def read_recents_def split: option.splits cell.splits)

lemma keeps_read_progressions: "keeps n (\<lambda>_. True) (read_progressions a)"
  by (simp add: keeps_def read_progressions_def split: option.splits cell.splits)

lemma keeps_read_notes: "keeps n (\<lambda>_. True) (read_notes a)"
  by (simp add: keeps_def read_notes_def split: option.splits cell.splits)

lemma keeps_read_tools: "keeps n (\<lambda>_. True) (read_tools a)"
  by (simp add: keeps_def read_tools_def split: option.splits cell.splits)

lemma keeps_read_ctx_new:
  assumes "n \<le> a"
  shows "keeps n (\<lambda>c. closed_cell n (Ctx c)) (read_ctx a)"
  unfolding keeps_def
proof (intro allI impI)
  fix h assume h: "n \<le> length h \<and> closed_from n h"
  show "case read_ctx a h of (r, h') \<Rightarrow>
           take n h' = take n h \<and> n \<le> length h' \<and> closed_from n h' \<and>
           (case r of Returns x \<Rightarrow> closed_cell n (Ctx x) | Throws m \<Rightarrow> True)"
  proof (cases "lookup h a")
    case None
    then show ?thesis using h by (simp add: read_ctx_def)
  next
    case (Some c)
    then have "a < length h" and "c = h ! a" by (auto simp: lookup_def split: if_splits)
    with h assms have "closed_cell n c" by (simp add: closed_from_nth)
    then show ?thesis using h Some by (cases c) (simp_all add: read_ctx_def)
  qed
qed

lemma keeps_read_kb_new:
  assumes "n \<le> a"
  shows "keeps n (\<lambda>kc. closed_cell n (Kb kc)) (read_kb a)"
  unfolding keeps_def
proof (intro allI impI)
  fix h assume h: "n \<le> length h \<and> closed_from n h"
  show "case read_kb a h of (r, h') \<Rightarrow>
           take n h' = take n h \<and> n \<le> length h' \<and> closed_from n h' \<and>
           (case r of Returns x \<Rightarrow> closed_cell n (Kb x) | Throws m \<Rightarrow> True)"
  proof (cases "lookup h a")
    case None
    then show ?thesis using h by (simp add: read_kb_def)
  next
    case (Some c)
    then have "a < length h" and "c = h ! a" by (auto simp: lookup_def split: if_splits)
    with h assms have "closed_cell n c" by (simp add: closed_from_nth)
    then show ?thesis using h Some by (cases c) (simp_all add: read_kb_def)
  qed
qed

lemmas keeps_reads = keeps_read_ctx keeps_read_kb keeps_read_files keeps_read_steps
  keeps_read_recents keeps_read_progressions keeps_read_notes keeps_read_tools

lemma keeps_set_ctx:
  assumes "n \<le> a" and "\<And>c. closed_cell n (Ctx c) \<Longrightarrow> closed_cell n (Ctx (f c))"
  shows "keeps n (\<lambda>_. True) (set_ctx a f)"
  unfolding set_ctx_def
  by (rule keeps_bind [OF keeps_read_ctx_new [OF assms(1)]])
     (rule keeps_write_cell [OF assms(1)], rule assms(2))

lemma keeps_set_kb:
  assumes "n \<le> a" and "\<And>c. closed_cell n (Kb c) \<Longrightarrow> closed_cell n (Kb (f c))"
  shows "keeps n (\<lambda>_. True) (set_kb a f)"
  unfolding set_kb_def
  by (rule keeps_bind [OF keeps_read_kb_new [OF assms(1)]])
     (rule keeps_write_cell [OF assms(1)], rule assms(2))

lemma keeps_modify_files:
  assumes "n \<le> a"
  shows "keeps n (\<lambda>_. True) (modify_files a f)"
  unfolding modify_files_def
  by (rule keeps_bind [OF keeps_read_files])
     (rule keeps_write_cell [OF assms], simp add: closed_cell_def cell_refs_def)

lemma closed_plain [simp]:
  "closed_cell n (Files fs)" "closed_cell n (Steps ss)" "closed_cell n (Recents rs)"
  "closed_cell n (Progressions ps)" "closed_cell n (Notes ns)" "closed_cell n (Tools ts)"
  by (simp_all add: closed_cell_def cell_refs_def)

lemma closed_ctx:
  "closed_cell n (Ctx c) =
     (n \<le> c_session_history c \<and> n \<le> c_knowledge_base c \<and> n \<le> c_recent_actions c \<and>
      n \<le> c_available_tools c \<and> (case c_error_progression c of None \<Rightarrow> True | Some a \<Rightarrow> n \<le> a))"
  by (auto simp: closed_cell_def cell_refs_def split: option.splits)

lemma closed_kb:
  "closed_cell n (Kb kc) = (n \<le> k_files_read kc \<and> n \<le> k_error_analysis_notes kc)"
  by (simp add: closed_cell_def cell_refs_def)

lemma keeps_read_progressions_opt: "keeps n (\<lambda>_. True) (read_progressions_opt a)"
  unfolding read_progressions_opt_def
  by (cases a) (auto intro!: keeps_return keeps_bind [OF keeps_read_progressions])

lemma keeps_new_progressions_opt:
  "keeps n (\<lambda>a. case a of None \<Rightarrow> True | Some b \<Rightarrow> n \<le> b) (new_progressions_opt xs)"
  unfolding new_progressions_opt_def
  by (cases xs) (auto intro!: keeps_return keeps_bind [OF keeps_new_cell])

lemma keeps_deep_clone: "keeps n (\<lambda>a. n \<le> a) (deep_clone agentContext)"
  unfolding deep_clone_def
  apply (rule keeps_bind [OF keeps_read_ctx])
  apply (rule keeps_bind [OF keeps_read_steps])
  apply (rule keeps_bind [OF keeps_read_kb])
  apply (rule keeps_bind [OF keeps_read_files])
  apply (rule keeps_bind [OF keeps_read_notes])
  apply (rule keeps_bind [OF keeps_read_recents])
  apply (rule keeps_bind [OF keeps_read_progressions_opt])
  apply (rule keeps_bind [OF keeps_read_tools])
  apply (rule keeps_bind [OF keeps_new_cell], simp)
  apply (rule keeps_bind [OF keeps_new_cell], simp)
  apply (rule keeps_bind [OF keeps_new_cell], simp)
  apply (rule keeps_bind [OF keeps_new_cell], simp add: closed_kb)
  apply (rule keeps_bind [OF keeps_new_cell], simp)
  apply (rule keeps_bind [OF keeps_new_progressions_opt])
  apply (rule keeps_bind [OF keeps_new_cell], simp)
  apply (rule keeps_new_cell)
  apply (simp add: closed_ctx)
  done

subsection \<open>The optimizer keeps every object that existed before\<close>

lemma keeps_if:
  "keeps n Q p \<Longrightarrow> keeps n Q q \<Longrightarrow> keeps n Q (if b then p else q)"
  by simp

lemma keeps_unit: "keeps n (\<lambda>_. True) (hreturn ())"
  by (rule keeps_return) simp

lemma keeps_focus_mode:
  assumes "n \<le> context"
  shows "keeps n (\<lambda>_. True) (focus_mode context blocking)"
  unfolding focus_mode_def
  apply (rule keeps_bind [OF keeps_read_ctx_new [OF assms]])
  apply (rule keeps_bind [OF keeps_read_steps])
  apply (rule keeps_bind [OF keeps_new_cell], simp)
  apply (rule keeps_bind [OF keeps_set_ctx [OF assms]], simp add: closed_ctx)
  apply (rule keeps_bind [where Q = "\<lambda>_. True"])
   apply (rule keeps_if)
    apply (rule keeps_bind [OF keeps_read_ctx_new [OF assms]])
    apply (rule keeps_bind [OF keeps_read_kb_new], simp add: closed_ctx)
    apply (rule keeps_modify_files, simp add: closed_kb)
   apply (rule keeps_unit)
  apply (rule keeps_bind [OF keeps_read_ctx_new [OF assms]])
  apply (rule keeps_bind [OF keeps_read_recents])
  apply (rule keeps_if)
   apply (rule keeps_bind [OF keeps_new_cell], simp)
   apply (rule keeps_set_ctx [OF assms], simp add: closed_ctx)
  apply (rule keeps_unit)
  done

lemma keeps_drift_mode:
  assumes "n \<le> context"
  shows "keeps n (\<lambda>_. True) (drift_mode context)"
  unfolding drift_mode_def
  apply (rule keeps_bind [OF keeps_read_ctx_new [OF assms]])
  apply (rule keeps_bind [OF keeps_read_steps])
  apply (rule keeps_if)
   apply (rule keeps_bind [OF keeps_new_cell], simp)
   apply (rule keeps_set_ctx [OF assms], simp add: closed_ctx)
  apply (rule keeps_unit)
  done

lemma keeps_truncate_files:
  assumes "n \<le> context"
  shows "keeps n (\<lambda>_. True) (truncate_files context)"
  unfolding truncate_files_def
  apply (rule keeps_bind [OF keeps_read_ctx_new [OF assms]])
  apply (rule keeps_bind [OF keeps_read_kb_new], simp add: closed_ctx)
  apply (rule keeps_modify_files, simp add: closed_kb)
  done

lemma keeps_consolidate_notes:
  assumes "n \<le> context"
  shows "keeps n (\<lambda>_. True) (consolidate_notes context)"
  unfolding consolidate_notes_def
  apply (rule keeps_bind [OF keeps_read_ctx_new [OF assms]])
  apply (rule keeps_bind [OF keeps_read_kb_new], simp add: closed_ctx)
  apply (rule keeps_bind [OF keeps_read_notes])
  apply (rule keeps_if)
   apply (rule keeps_bind [OF keeps_new_cell], simp)
   apply (rule keeps_bind [OF keeps_read_ctx_new [OF assms]])
   apply (rule keeps_set_kb, simp add: closed_ctx, simp add: closed_kb)
  apply (rule keeps_unit)
  done

lemma keeps_cap_progression:
  assumes "n \<le> context"
  shows "keeps n (\<lambda>_. True) (cap_progression context)"
  unfolding cap_progression_def
  apply (rule keeps_bind [OF keeps_read_ctx_new [OF assms]])
  subgoal for c
    apply (cases "c_error_progression c")
     apply (simp add: keeps_unit)
    apply simp
    apply (rule keeps_bind [OF keeps_read_progressions])
    apply (rule keeps_if)
     apply (rule keeps_bind [OF keeps_new_cell], simp)
     apply (rule keeps_set_ctx [OF assms], simp add: closed_ctx)
    apply (rule keeps_unit)
    done
  done

lemma keeps_map_tools:
  assumes "n \<le> context"
  shows "keeps n (\<lambda>_. True) (map_tools context)"
  unfolding map_tools_def
  apply (rule keeps_bind [OF keeps_read_ctx_new [OF assms]])
  apply (rule keeps_bind [OF keeps_read_tools])
  apply (rule keeps_bind [OF keeps_new_cell], simp)
  apply (rule keeps_set_ctx [OF assms], simp add: closed_ctx)
  done

lemma keeps_optimizeAgentContext: "keeps n (\<lambda>a. n \<le> a) (optimizeAgentContext agentContext)"
  unfolding optimizeAgentContext_def
  apply (rule keeps_bind [OF keeps_deep_clone])
  apply (rule keeps_bind [OF keeps_read_ctx])
  subgoal for cx c
    apply (rule keeps_bind [where Q = "\<lambda>_. True"])
     apply (cases "c_current_blocking_error c")
      apply (simp add: keeps_drift_mode)
     apply (simp add: keeps_focus_mode)
    apply (rule keeps_bind [OF keeps_truncate_files], assumption)
    apply (rule keeps_bind [OF keeps_consolidate_notes], assumption)
    apply (rule keeps_bind [OF keeps_cap_progression], assumption)
    apply (rule keeps_bind [OF keeps_map_tools], assumption)
    apply (rule keeps_return, assumption)
    done
  done


lemma ex_store_optimized:
  "fst (optimizeAgentContext 7 ex_store) = Returns 15 \<and>
   lookup (snd (optimizeAgentContext 7 ex_store)) 9 = Some (Files [(''src/app.py'', ''x = 1'')])"
  by code_simp

text \<open>
  The statements of the optimizer do change the objects they are pointed at: run on the
  context object itself, without the clone, the focus mode deletes \<open>README.md\<close> from the
  \<open>files_read\<close> object of the context.
\<close>

lemma focus_mode_changes_its_target:
  "lookup ex_store 1 = Some (Files [(''src/app.py'', ''x = 1''), (''README.md'', ''hello'')]) \<and>
   lookup (snd (focus_mode 7 ex_blocking ex_store)) 1 = Some (Files [(''src/app.py'', ''x = 1'')])"
  by code_simp

text \<open>
  Claim C6: whatever store and context \<open>optimizeAgentContext\<close> is run on, and whether it
  returns or throws, every object that existed before the call is the same afterwards:
  the context object, its session history, its knowledge base with \<open>files_read\<close> and the
  notes, the recent actions, the error progression and the tool list. The store has only
  grown, and the context returned is a new object: all trimming, summarizing and
  truncation happened on the deep copy.
\<close>

theorem optimizeAgentContext_pure:
  assumes "optimizeAgentContext agentContext h = (r, h')"
  shows "take (length h) h' = h \<and> (\<forall>a < length h. lookup h' a = lookup h a)
       \<and> (case r of Returns context \<Rightarrow> length h \<le> context | Throws m \<Rightarrow> True)"
proof -
  have c: "closed_from (length h) h" by (simp add: closed_from_def)
  from keeps_optimizeAgentContext [of "length h" agentContext] c assms
  have 1: "take (length h) h' = h" and 2: "length h \<le> length h'"
    and 3: "case r of Returns context \<Rightarrow> length h \<le> context | Throws m \<Rightarrow> True"
    by (auto simp: keeps_def)
  have "\<forall>a < length h. lookup h' a = lookup h a"
  proof (intro allI impI)
    fix a assume a: "a < length h"
    then have "h' ! a = take (length h) h' ! a" by simp
    then show "lookup h' a = lookup h a" using a 1 2 by (simp add: lookup_def)
  qed
  with 1 3 show ?thesis by simp
qed

theorem optimizeAgentContext_pure_witness:
  "fst (optimizeAgentContext 7 ex_store) = Returns 15 \<and>
   take 8 (snd (optimizeAgentContext 7 ex_store)) = ex_store \<and>
   lookup (snd (optimizeAgentContext 7 ex_store)) 1
     = Some (Files [(''src/app.py'', ''x = 1''), (''README.md'', ''hello'')]) \<and>
   lookup (snd (optimizeAgentContext 7 ex_store)) 9 = Some (Files [(''src/app.py'', ''x = 1'')])"
proof -
  have e: "optimizeAgentContext 7 ex_store
             = (fst (optimizeAgentContext 7 ex_store), snd (optimizeAgentContext 7 ex_store))"
    by simp
  have l: "length ex_store = 8" by (simp add: ex_store_def)
  have o: "lookup ex_store 1 = Some (Files [(''src/app.py'', ''x = 1''), (''README.md'', ''hello'')])"
    by (simp add: lookup_def ex_store_def)
  from optimizeAgentContext_pure [OF e] l o
  have "take 8 (snd (optimizeAgentContext 7 ex_store)) = ex_store"
    and "lookup (snd (optimizeAgentContext 7 ex_store)) 1
           = Some (Files [(''src/app.py'', ''x = 1''), (''README.md'', ''hello'')])"
    by auto
  then show ?thesis using ex_store_optimized by simp
qed

end
